theory Spec2Isabelle
  imports Main "HOL-Library.Sublist" "HOL-Library.AList" "HOL-Library.Multiset"
begin

section \<open>Values, dictionaries and errors\<close>

text \<open>
  The configuration is a JSON-like document. \<open>PSelf\<close> stands for the
  \<open>ExperimentConfig\<close> instance that is being initialised (the value bound to a
  constructor parameter named \<open>experiment_config\<close>), \<open>PObj\<close> for an instance
  returned by a registered constructor. Numbers are opaque to the code under study, so one
  numeric constructor is enough.
\<close>

datatype pval =
    PNone
  | PBool bool
  | PInt int
  | PStr string
  | PList "pval list"
  | PDict "(string \<times> pval) list"
  | PSelf
  | PObj string "(string \<times> pval) list"

text \<open>
  A Python \<open>dict\<close> keeps insertion order: an association list whose keys are distinct.
  \<open>d[k] = v\<close> replaces in place or appends (\<open>AList.update\<close>), \<open>k in d\<close> is
  \<open>dict_in\<close>, \<open>d[k]\<close> and \<open>d.get(k)\<close> are \<open>map_of\<close>.
\<close>

type_synonym 'v dict = "(string \<times> 'v) list"

definition dict_in :: "string \<Rightarrow> 'v dict \<Rightarrow> bool" where
  "dict_in k d = (k \<in> fst ` set d)"

definition dict_set :: "string \<Rightarrow> 'v \<Rightarrow> 'v dict \<Rightarrow> 'v dict" where
  "dict_set k v d = AList.update k v d"

text \<open>\<open>{k: v for k, v in pairs}\<close> and \<open>dict(pairs)\<close>: later pairs overwrite.\<close>

definition py_dict :: "(string \<times> 'v) list \<Rightarrow> 'v dict" where
  "py_dict ps = foldl (\<lambda>d kv. dict_set (fst kv) (snd kv) d) [] ps"

text \<open>\<open>for k in ks: del d[k]\<close> for a set \<open>ks\<close> of keys that are all present.\<close>

definition dict_del_all :: "string set \<Rightarrow> 'v dict \<Rightarrow> 'v dict" where
  "dict_del_all ks d = filter (\<lambda>kv. fst kv \<notin> ks) d"

fun is_dict :: "pval \<Rightarrow> bool" where
  "is_dict (PDict _) = True"
| "is_dict _ = False"

fun is_list :: "pval \<Rightarrow> bool" where
  "is_list (PList _) = True"
| "is_list _ = False"

fun is_str :: "pval \<Rightarrow> bool" where
  "is_str (PStr _) = True"
| "is_str _ = False"

datatype value_error =
    NotADict string
  | NoNameProperty string
  | NotRegistered string pval
  | ListParamNotStr string
  | ParamNotStr string

text \<open>
  \<open>ConstructorError\<close> stands for an exception of a class of the constructor's own.
  A registered constructor can raise that or any other exception, one of class
  \<open>UnconfiguredItemsException\<close> included (a plugin that builds a nested
  \<open>ExperimentConfig\<close> does).
\<close>

datatype error =
    ValueError value_error
  | TypeError
  | IndexError
  | ConstructorError string
  | UnconfiguredItemsException "string set dict"

text \<open>
  Looking a value up as a dictionary key (\<open>p in d\<close> followed by \<open>d[p]\<close>,
  or \<open>d.get(p)\<close>): the keys are strings, a list or a dict is unhashable
  (\<open>TypeError\<close>), any other value is hashable and equal to no key.
\<close>

fun py_lookup :: "'v dict \<Rightarrow> pval \<Rightarrow> error + 'v option" where
  "py_lookup d (PStr s) = Inr (map_of d s)"
| "py_lookup d (PList _) = Inl TypeError"
| "py_lookup d (PDict _) = Inl TypeError"
| "py_lookup d _ = Inr None"

section \<open>Environment substitution\<close>

text \<open>
  \<open>str.replace(old, new)\<close>: the non-overlapping occurrences of \<open>old\<close>, found
  from the left, are replaced; an empty \<open>old\<close> matches before every character and
  at the end.
\<close>

fun py_replace :: "string \<Rightarrow> string \<Rightarrow> string \<Rightarrow> string" where
  "py_replace old new s =
     (if old = [] then concat (map (\<lambda>c. new @ [c]) s) @ new
      else if s = [] then []
      else if prefix old s then new @ py_replace old new (drop (length old) s)
      else hd s # py_replace old new (tl s))"

declare py_replace.simps [simp del]

text \<open>
  \<open>sorted(env.keys(), key=lambda k: len(k), reverse=True)\<close>. Python's sort is stable
  and \<open>reverse=True\<close> keeps the original order of keys of equal length.
\<close>

definition env_keys :: "string dict \<Rightarrow> string list" where
  "env_keys env = rev (sort_key length (rev (map fst env)))"

definition do_env_subs :: "string dict \<Rightarrow> pval \<Rightarrow> pval" where
  "do_env_subs env v =
     (case v of
        PStr s \<Rightarrow>
          PStr (foldl (\<lambda>v_upd env_key.
                   case map_of env env_key of
                     Some r \<Rightarrow> py_replace env_key r v_upd
                   | None \<Rightarrow> v_upd) s (env_keys env))
      | _ \<Rightarrow> v)"

section \<open>The registry and the factories\<close>

text \<open>
  A registered class, as \<open>_build_items\<close> sees it: the positional parameter names of
  \<open>__init__\<close> (\<open>inspect.getfullargspec(...).args\<close>, receiver first), its default
  values (\<open>spec.defaults\<close>, empty for \<open>None\<close>) and the call \<open>clazz(**params)\<close>,
  which returns an instance or raises.
\<close>

record clazz =
  args :: "string list"
  defaults :: "pval list"
  init :: "pval dict \<Rightarrow> error + pval"

type_synonym registry = "string \<Rightarrow> clazz option"

text \<open>\<open>CLASSES.get(name)\<close>.\<close>

fun classes_get :: "registry \<Rightarrow> pval \<Rightarrow> error + clazz option" where
  "classes_get reg (PStr s) = Inr (reg s)"
| "classes_get reg (PList _) = Inl TypeError"
| "classes_get reg (PDict _) = Inl TypeError"
| "classes_get reg _ = Inr None"

text \<open>
  \<open>ParamFactory(param)\<close> and \<open>PluginFactory(cls, param2config_key, *args, **kwargs)\<close>;
  the class is kept by its name.
\<close>

datatype factory =
    ParamFactory pval
  | PluginFactory string "pval dict option" "pval list" "pval dict"

section \<open>One scan of \<open>_build_items\<close>\<close>

record scan_state =
  experiment_dict :: "pval dict"
  factories :: "factory dict"
  configured :: "string set"
  unconfigured :: "string set dict"

text \<open>Lines 217-228: the literal parameters of a descriptor, and the check of the others.\<close>

fun literal_params_loop :: "pval dict \<Rightarrow> pval dict \<Rightarrow> error + pval dict" where
  "literal_params_loop [] literal_params = Inr literal_params"
| "literal_params_loop ((p, pv) # rest) literal_params =
     (if p = [] then Inl IndexError
      else if last p = CHR ''_'' then
        literal_params_loop rest (dict_set (butlast p) pv literal_params)
      else
        (case pv of
           PList pvs \<Rightarrow>
             if list_all is_str pvs then literal_params_loop rest literal_params
             else Inl (ValueError (ListParamNotStr p))
         | PStr _ \<Rightarrow> literal_params_loop rest literal_params
         | _ \<Rightarrow> Inl (ValueError (ParamNotStr p))))"

text \<open>Lines 241-246: the values of the leading keys of a list alias that are resolved.\<close>

fun param_list_loop :: "pval dict \<Rightarrow> pval list \<Rightarrow> error + pval list" where
  "param_list_loop experiment [] = Inr []"
| "param_list_loop experiment (p # ps) =
     (case py_lookup experiment p of
        Inl e \<Rightarrow> Inl e
      | Inr None \<Rightarrow> Inr []
      | Inr (Some x) \<Rightarrow>
          (case param_list_loop experiment ps of
             Inl e \<Rightarrow> Inl e
           | Inr xs \<Rightarrow> Inr (x # xs)))"

text \<open>
  Lines 231-260, the body of \<open>for arg in spec.args[1:]\<close>. The state is the pair
  \<open>(params, param2config_key)\<close>.
\<close>

definition fill_arg ::
  "nat \<Rightarrow> pval dict \<Rightarrow> pval dict \<Rightarrow> pval dict \<Rightarrow> pval dict \<Rightarrow> pval dict \<Rightarrow> string \<Rightarrow>
   pval dict \<times> pval dict \<Rightarrow> error + pval dict \<times> pval dict" where
  "fill_arg default_params_mode config experiment literal_params named_params default_params arg st =
     (case map_of literal_params arg of
        Some lit \<Rightarrow> Inr (dict_set arg lit (fst st), dict_set arg PNone (snd st))
      | None \<Rightarrow>
          (let st1 = (if arg = ''experiment_config''
                      then (dict_set arg PSelf (fst st), dict_set arg (PStr arg) (snd st))
                      else st)
           in case map_of named_params arg of
                Some alias \<Rightarrow>
                  (case alias of
                     PList al \<Rightarrow>
                       (case param_list_loop experiment al of
                          Inl e \<Rightarrow> Inl e
                        | Inr param_list \<Rightarrow>
                            Inr (if length param_list = length al
                                 then dict_set arg (PList param_list) (fst st1)
                                 else fst st1,
                                 dict_set arg alias (snd st1)))
                   | _ \<Rightarrow>
                       (case py_lookup experiment alias of
                          Inl e \<Rightarrow> Inl e
                        | Inr (Some x) \<Rightarrow> Inr (dict_set arg x (fst st1), dict_set arg alias (snd st1))
                        | Inr None \<Rightarrow> Inr (fst st1, dict_set arg alias (snd st1))))
              | None \<Rightarrow>
                  (case map_of experiment arg of
                     Some x \<Rightarrow> Inr (dict_set arg x (fst st1), dict_set arg (PStr arg) (snd st1))
                   | None \<Rightarrow>
                       (case map_of default_params arg of
                          Some d \<Rightarrow>
                            if default_params_mode = 1 \<and> \<not> dict_in arg config
                            then Inr (dict_set arg d (fst st1), dict_set arg PNone (snd st1))
                            else if default_params_mode = 2
                            then Inr (dict_set arg d (fst st1), dict_set arg PNone (snd st1))
                            else Inr st1
                        | None \<Rightarrow> Inr st1))))"

fun fill_args ::
  "nat \<Rightarrow> pval dict \<Rightarrow> pval dict \<Rightarrow> pval dict \<Rightarrow> pval dict \<Rightarrow> pval dict \<Rightarrow> string list \<Rightarrow>
   pval dict \<times> pval dict \<Rightarrow> error + pval dict \<times> pval dict" where
  "fill_args m config experiment lp np dp [] st = Inr st"
| "fill_args m config experiment lp np dp (arg # rest) st =
     (case fill_arg m config experiment lp np dp arg st of
        Inl e \<Rightarrow> Inl e
      | Inr st' \<Rightarrow> fill_args m config experiment lp np dp rest st')"

text \<open>Lines 214 and 215.\<close>

definition named_params_of :: "pval dict \<Rightarrow> pval dict" where
  "named_params_of v = filter (\<lambda>pp. fst pp \<noteq> ''_name'') v"

definition default_params_of :: "clazz \<Rightarrow> pval dict" where
  "default_params_of c =
     (if defaults c = [] then [] else py_dict (zip (rev (args c)) (rev (defaults c))))"

text \<open>
  Lines 212-260: \<open>params\<close> and \<open>param2config_key\<close> of the descriptor \<open>v\<close> of
  class \<open>c\<close>, or the exception raised on the way.
\<close>

definition resolve_params ::
  "nat \<Rightarrow> pval dict \<Rightarrow> pval dict \<Rightarrow> clazz \<Rightarrow> pval dict \<Rightarrow> error + pval dict \<times> pval dict" where
  "resolve_params default_params_mode config experiment c v =
     (case literal_params_loop v [] of
        Inl e \<Rightarrow> Inl e
      | Inr literal_params \<Rightarrow>
          fill_args default_params_mode config experiment literal_params
            (named_params_of v) (default_params_of c) (tl (args c)) ([], []))"

text \<open>
  Lines 199-267, the body of \<open>for k, v in config.items()\<close>. An exception leaves the
  state as it is when it is raised: the exception of the constructor (line 263)
  propagates as it is, whatever its class. The keyword call of \<open>PluginFactory\<close>
  (line 264) fails on a parameter named like one of the parameters of
  \<open>PluginFactory.__init__\<close>: \<open>self\<close>, \<open>cls\<close> or \<open>param2config_key\<close>.
\<close>

definition build_item ::
  "registry \<Rightarrow> nat \<Rightarrow> pval dict \<Rightarrow> string \<times> pval \<Rightarrow> scan_state \<Rightarrow> scan_state \<times> error option" where
  "build_item reg default_params_mode config kv s =
     (case snd kv of
        PDict v \<Rightarrow>
          (case map_of v ''_name'' of
             None \<Rightarrow> (s, Some (ValueError (NoNameProperty (fst kv))))
           | Some name \<Rightarrow>
               (case classes_get reg name of
                  Inl e \<Rightarrow> (s, Some e)
                | Inr None \<Rightarrow> (s, Some (ValueError (NotRegistered (fst kv) name)))
                | Inr (Some c) \<Rightarrow>
                    (case resolve_params default_params_mode config (experiment_dict s) c v of
                       Inl e \<Rightarrow> (s, Some e)
                     | Inr (params, param2config_key) \<Rightarrow>
                         if int (length params) = int (length (args c)) - 1 then
                           (case init c params of
                              Inl e \<Rightarrow> (s, Some e)
                            | Inr obj \<Rightarrow>
                                (let s1 = s\<lparr>experiment_dict := dict_set (fst kv) obj (experiment_dict s)\<rparr>
                                 in if dict_in ''self'' params \<or> dict_in ''cls'' params
                                       \<or> dict_in ''param2config_key'' params
                                    then (s1, Some TypeError)
                                    else (s1\<lparr>factories :=
                                                dict_set (fst kv)
                                                  (PluginFactory (case name of PStr n \<Rightarrow> n | _ \<Rightarrow> [])
                                                     (Some param2config_key) [] params)
                                                  (factories s1),
                                              configured := insert (fst kv) (configured s1)\<rparr>,
                                          None)))
                         else
                           (s\<lparr>unconfigured :=
                                dict_set (fst kv)
                                  {arg \<in> set (tl (args c)). \<not> dict_in arg params}
                                  (unconfigured s)\<rparr>,
                            None))))
      | _ \<Rightarrow> (s, Some (ValueError (NotADict (fst kv)))))"

fun scan :: "registry \<Rightarrow> nat \<Rightarrow> pval dict \<Rightarrow> pval dict \<Rightarrow> scan_state \<Rightarrow> scan_state \<times> error option" where
  "scan reg m config [] s = (s, None)"
| "scan reg m config (kv # rest) s =
     (case build_item reg m config kv s of
        (s', Some e) \<Rightarrow> (s', Some e)
      | (s', None) \<Rightarrow> scan reg m config rest s')"

section \<open>\<open>_build_items\<close>: the scans of one tier\<close>

text \<open>
  The dictionaries \<open>config\<close>, \<open>experiment\<close> and \<open>self.factories\<close> are updated in
  place, so the function returns them with the outcome: \<open>None\<close> for a normal return,
  \<open>Some e\<close> for the exception that leaves the function.
\<close>

record build_state =
  b_config :: "pval dict"
  b_experiment :: "pval dict"
  b_factories :: "factory dict"

definition scan_init :: "build_state \<Rightarrow> scan_state" where
  "scan_init b =
     \<lparr>experiment_dict = b_experiment b, factories = b_factories b,
      configured = {}, unconfigured = []\<rparr>"

definition after_scan :: "build_state \<Rightarrow> scan_state \<Rightarrow> build_state" where
  "after_scan b s = b\<lparr>b_experiment := experiment_dict s, b_factories := factories s\<rparr>"

function build_items :: "registry \<Rightarrow> nat \<Rightarrow> build_state \<Rightarrow> build_state \<times> error option" where
  "build_items reg default_params_mode b =
     (if b_config b = [] then (b, None)
      else
        (let r = scan reg default_params_mode (b_config b) (b_config b) (scan_init b);
             b1 = after_scan b (fst r)
         in if snd r \<noteq> None then (b1, snd r)
            else if configured (fst r) \<noteq> {} then
              build_items reg default_params_mode
                (b1\<lparr>b_config := dict_del_all (configured (fst r)) (b_config b)\<rparr>)
            else if b_config b \<noteq> [] then
              (b1, Some (UnconfiguredItemsException (unconfigured (fst r))))
            else (b1, None)))"
  by pat_completeness auto

text \<open>
  Each pass either raises or deletes at least one key of \<open>config\<close>: the keys
  configured in a scan are keys of the dictionary scanned.
\<close>

lemma build_item_configured:
  "build_item reg m config kv s = (s', r) \<Longrightarrow> configured s' \<subseteq> insert (fst kv) (configured s)"
  by (auto simp: build_item_def Let_def
           split: pval.splits option.splits sum.splits if_splits prod.splits)

lemma scan_configured:
  "scan reg m config items s = (s', r) \<Longrightarrow> configured s' \<subseteq> configured s \<union> fst ` set items"
proof (induction items arbitrary: s)
  case Nil
  then show ?case by simp
next
  case (Cons kv rest)
  obtain s1 r1 where b: "build_item reg m config kv s = (s1, r1)"
    by (cases "build_item reg m config kv s")
  from build_item_configured[OF b] have c1: "configured s1 \<subseteq> insert (fst kv) (configured s)" .
  show ?case
  proof (cases r1)
    case None
    with Cons.prems b have "scan reg m config rest s1 = (s', r)" by simp
    from Cons.IH[OF this] c1 show ?thesis by auto
  next
    case (Some e)
    with Cons.prems b have "s' = s1" by simp
    with c1 show ?thesis by auto
  qed
qed

lemma dict_del_all_shorter:
  assumes "ks \<noteq> {}" "ks \<subseteq> fst ` set d"
  shows "length (dict_del_all ks d) < length d"
proof -
  from assms obtain kv where "kv \<in> set d" "fst kv \<in> ks" by fastforce
  then show ?thesis unfolding dict_del_all_def
    by (metis (mono_tags, lifting) length_filter_less)
qed

termination build_items
proof (relation "measure (\<lambda>(reg, m, b). length (b_config b))", goal_cases)
  case 1
  then show ?case by simp
next
  case (2 reg m b r b1)
  have "configured (fst r) \<subseteq> fst ` set (b_config b)"
    using scan_configured[of reg m "b_config b" "b_config b" "scan_init b" "fst r" "snd r"] 2
    by (simp add: scan_init_def)
  with 2 show ?case by (simp add: dict_del_all_shorter)
qed

declare build_items.simps [simp del]

section \<open>\<open>ExperimentConfig.__init__\<close>\<close>

text \<open>Lines 135-140 and 144-151, the bodies of the two classification loops.\<close>

definition simple_param ::
  "string dict \<Rightarrow> pval dict \<times> factory dict \<Rightarrow> string \<times> pval \<Rightarrow> pval dict \<times> factory dict" where
  "simple_param env ef kv =
     (if \<not> is_dict (snd kv) \<and> \<not> is_list (snd kv) then
        (let v = do_env_subs env (snd kv)
         in (dict_set (fst kv) v (fst ef), dict_set (fst kv) (ParamFactory v) (snd ef)))
      else ef)"

definition simple_list ::
  "string dict \<Rightarrow> pval dict \<times> factory dict \<Rightarrow> string \<times> pval \<Rightarrow> pval dict \<times> factory dict" where
  "simple_list env ef kv =
     (case snd kv of
        PList vs \<Rightarrow>
          if list_all (\<lambda>vv. \<not> is_dict vv \<and> \<not> is_list vv) vs then
            (let upd = map (do_env_subs env) vs
             in (dict_set (fst kv) (PList upd) (fst ef),
                 dict_set (fst kv) (PluginFactory ''list'' None [PList upd] []) (snd ef)))
          else ef
      | _ \<Rightarrow> ef)"

text \<open>Lines 132-154: the scalars and the scalar lists are resolved, the rest stays in \<open>config\<close>.\<close>

definition classify :: "string dict \<Rightarrow> pval dict \<Rightarrow> build_state" where
  "classify env config =
     (let ef = foldl (simple_list env) (foldl (simple_param env) ([], []) config) config
      in \<lparr>b_config = dict_del_all (fst ` set (fst ef)) config,
          b_experiment = fst ef, b_factories = snd ef\<rparr>)"

text \<open>
  \<open>try: ... except UnconfiguredItemsException: pass\<close> goes on after a normal return
  and after an exception of this class, wherever it was raised.
\<close>

fun passes :: "error option \<Rightarrow> bool" where
  "passes None = True"
| "passes (Some (UnconfiguredItemsException _)) = True"
| "passes (Some _) = False"

text \<open>
  Lines 127-180 for an in-memory mapping. The result is the state of the local
  dictionaries when the constructor returns (\<open>None\<close>; \<open>self.experiment\<close> is then
  \<open>b_experiment\<close>) or raises.
\<close>

definition ExperimentConfig_init ::
  "registry \<Rightarrow> pval dict \<Rightarrow> string dict \<Rightarrow> build_state \<times> error option" where
  "ExperimentConfig_init reg experiment env =
     (let r0 = build_items reg 0 (classify env experiment)
      in if \<not> passes (snd r0) then r0
         else
           (let r1 = build_items reg 1 (fst r0)
            in if \<not> passes (snd r1) then r1
               else build_items reg 2 (fst r1)))"

section \<open>Specification-level definitions\<close>

text \<open>
  The value that the argument loop of \<open>_build_items\<close> (lines 230--260) gives one
  constructor argument, as a function of the argument name. \<open>alias_value\<close> is lines
  238--251: a list alias needs every one of its keys in \<open>experiment\<close>, a string alias needs
  its key. \<open>arg_source\<close> is the chain of lines 231--260 without the self reference: the
  literal \<open>arg_\<close>, then the declared alias and nothing after it, then the key of the same
  name, then the constructor default in the mode that allows it. \<open>self_or\<close> is lines
  235--237 (an \<open>if\<close> followed by an \<open>if\<close>, so a later branch overwrites it), and
  \<open>store_arg\<close> is one round of the loop on \<open>params\<close>.
\<close>

definition key_resolved :: "pval dict \<Rightarrow> pval \<Rightarrow> bool" where
  "key_resolved experiment p = (case p of PStr s \<Rightarrow> dict_in s experiment | _ \<Rightarrow> False)"

definition key_value :: "pval dict \<Rightarrow> pval \<Rightarrow> pval" where
  "key_value experiment p = (case p of PStr s \<Rightarrow> the (map_of experiment s) | _ \<Rightarrow> PNone)"

definition alias_value :: "pval dict \<Rightarrow> pval \<Rightarrow> pval option" where
  "alias_value experiment alias =
     (case alias of
        PList al \<Rightarrow>
          if list_all (key_resolved experiment) al
          then Some (PList (map (key_value experiment) al)) else None
      | PStr s \<Rightarrow> map_of experiment s
      | _ \<Rightarrow> None)"

definition default_applies :: "nat \<Rightarrow> pval dict \<Rightarrow> string \<Rightarrow> bool" where
  "default_applies m config arg = (m = 1 \<and> \<not> dict_in arg config \<or> m = 2)"

definition arg_source ::
  "nat \<Rightarrow> pval dict \<Rightarrow> pval dict \<Rightarrow> (string \<Rightarrow> pval option) \<Rightarrow> pval dict \<Rightarrow> pval dict \<Rightarrow> string \<Rightarrow>
   pval option" where
  "arg_source m config experiment lit np dp arg =
     (case lit arg of
        Some l \<Rightarrow> Some l
      | None \<Rightarrow>
          (case map_of np arg of
             Some alias \<Rightarrow> alias_value experiment alias
           | None \<Rightarrow>
               (case map_of experiment arg of
                  Some x \<Rightarrow> Some x
                | None \<Rightarrow> if default_applies m config arg then map_of dp arg else None)))"

definition self_or :: "string \<Rightarrow> pval option \<Rightarrow> pval option" where
  "self_or arg r =
     (case r of Some x \<Rightarrow> Some x
      | None \<Rightarrow> if arg = ''experiment_config'' then Some PSelf else None)"

definition literal_of :: "pval dict \<Rightarrow> string \<Rightarrow> pval option" where
  "literal_of v arg = map_of v (arg @ ''_'')"

definition param_source :: "nat \<Rightarrow> pval dict \<Rightarrow> pval dict \<Rightarrow> clazz \<Rightarrow> pval dict \<Rightarrow> string \<Rightarrow> pval option" where
  "param_source m config experiment c v arg =
     arg_source m config experiment (literal_of v) (named_params_of v) (default_params_of c) arg"

definition store_arg :: "(string \<Rightarrow> pval option) \<Rightarrow> pval dict \<Rightarrow> string \<Rightarrow> pval dict" where
  "store_arg src params arg =
     (case self_or arg (src arg) of Some x \<Rightarrow> dict_set arg x params | None \<Rightarrow> params)"

text \<open>
  The order of sources as the documentation gives it: literal, self reference, alias, key of
  the same name, default, the first that yields a value winning.
\<close>

definition spec_param_source ::
  "nat \<Rightarrow> pval dict \<Rightarrow> pval dict \<Rightarrow> clazz \<Rightarrow> pval dict \<Rightarrow> string \<Rightarrow> pval option" where
  "spec_param_source m config experiment c v arg =
     (case literal_of v arg of
        Some l \<Rightarrow> Some l
      | None \<Rightarrow>
          if arg = ''experiment_config'' then Some PSelf
          else
            (case (case map_of (named_params_of v) arg of
                     Some alias \<Rightarrow> alias_value experiment alias
                   | None \<Rightarrow> None) of
               Some x \<Rightarrow> Some x
             | None \<Rightarrow>
                 (case map_of experiment arg of
                    Some x \<Rightarrow> Some x
                  | None \<Rightarrow>
                      if default_applies m config arg then map_of (default_params_of c) arg
                      else None)))"

text \<open>
  Four registered classes for the examples: \<open>Box(value)\<close>, \<open>Pair(items, size=0)\<close>,
  \<open>Probe(experiment_config)\<close> and \<open>Opt(p=0, q=1)\<close>. Their constructors store the
  parameters they get.
\<close>

definition Box :: clazz where
  "Box = \<lparr>args = [''self'', ''value''], defaults = [], init = (\<lambda>params. Inr (PObj ''Box'' params))\<rparr>"

definition Pair :: clazz where
  "Pair = \<lparr>args = [''self'', ''items'', ''size''], defaults = [PInt 0],
           init = (\<lambda>params. Inr (PObj ''Pair'' params))\<rparr>"

definition Probe :: clazz where
  "Probe = \<lparr>args = [''self'', ''experiment_config''], defaults = [],
            init = (\<lambda>params. Inr (PObj ''Probe'' params))\<rparr>"

definition Opt :: clazz where
  "Opt = \<lparr>args = [''self'', ''p'', ''q''], defaults = [PInt 0, PInt 1],
          init = (\<lambda>params. Inr (PObj ''Opt'' params))\<rparr>"

definition example_registry :: registry where
  "example_registry =
     [''Box'' \<mapsto> Box, ''Pair'' \<mapsto> Pair, ''Probe'' \<mapsto> Probe, ''Opt'' \<mapsto> Opt]"

text \<open>
  \<open>Nested(value)\<close> is a plugin whose constructor builds an \<open>ExperimentConfig\<close> of
  its own from a configuration with an unconfigurable item \<open>inner\<close>: the call
  \<open>clazz(**params)\<close> raises the \<open>UnconfiguredItemsException\<close> of that inner run.
\<close>

definition Nested :: clazz where
  "Nested = \<lparr>args = [''self'', ''value''], defaults = [],
             init = (\<lambda>params. Inl (UnconfiguredItemsException [(''inner'', {''x''})]))\<rparr>"

definition nested_registry :: registry where
  "nested_registry = example_registry(''Nested'' \<mapsto> Nested)"


text \<open>
  The state at the head of the next round of the \<open>while\<close> loop (lines 269--271 after a
  scan that configured something), the parameters a descriptor still lacks at a given state
  (lines 262 and 267), and the shapes of values that the classification loops of
  \<open>__init__\<close> (lines 135--151) tell apart.
\<close>

definition next_pass :: "build_state \<Rightarrow> scan_state \<Rightarrow> build_state" where
  "next_pass b s = (after_scan b s)\<lparr>b_config := dict_del_all (configured s) (b_config b)\<rparr>"


text \<open>
  The three ways out of the \<open>while\<close> loop of \<open>_build_items\<close>, told apart by the
  place where the call ends and not by the class of an exception: the test of line 193
  fails and the function returns; line 274 raises after a scan that configured nothing;
  or an exception raised inside a scan step (lines 198--267) propagates. The recursion is
  the one of \<open>build_items\<close>.
\<close>

datatype loop_exit = Returned | Fixpoint | Raised

function build_items_exit :: "registry \<Rightarrow> nat \<Rightarrow> build_state \<Rightarrow> loop_exit" where
  "build_items_exit reg default_params_mode b =
     (if b_config b = [] then Returned
      else
        (let r = scan reg default_params_mode (b_config b) (b_config b) (scan_init b)
         in if snd r \<noteq> None then Raised
            else if configured (fst r) \<noteq> {} then
              build_items_exit reg default_params_mode (next_pass b (fst r))
            else Fixpoint))"
  by pat_completeness auto

termination build_items_exit
proof (relation "measure (\<lambda>(reg, m, b). length (b_config b))", goal_cases)
  case 1
  then show ?case by simp
next
  case (2 reg m b r)
  have "configured (fst r) \<subseteq> fst ` set (b_config b)"
    using scan_configured[of reg m "b_config b" "b_config b" "scan_init b" "fst r" "snd r"] 2
    by (simp add: scan_init_def)
  with 2 show ?case by (simp add: dict_del_all_shorter next_pass_def after_scan_def)
qed

declare build_items_exit.simps [simp del]

definition missing_of :: "registry \<Rightarrow> nat \<Rightarrow> pval dict \<Rightarrow> pval dict \<Rightarrow> pval \<Rightarrow> string set option" where
  "missing_of reg m config experiment v =
     (case v of
        PDict vd \<Rightarrow>
          (case map_of vd ''_name'' of
             Some (PStr n) \<Rightarrow>
               (case reg n of
                  Some c \<Rightarrow>
                    (case resolve_params m config experiment c vd of
                       Inr pp \<Rightarrow> Some {arg \<in> set (tl (args c)). \<not> dict_in arg (fst pp)}
                     | Inl e \<Rightarrow> None)
                | None \<Rightarrow> None)
           | _ \<Rightarrow> None)
      | _ \<Rightarrow> None)"

definition keys_of :: "'v dict \<Rightarrow> string set" where
  "keys_of d = fst ` set d"


definition is_scalar :: "pval \<Rightarrow> bool" where
  "is_scalar v = (\<not> is_dict v \<and> \<not> is_list v)"

definition is_simple :: "pval \<Rightarrow> bool" where
  "is_simple v = (case v of PList vs \<Rightarrow> list_all is_scalar vs | PDict _ \<Rightarrow> False | _ \<Rightarrow> True)"

definition malformed :: "pval \<Rightarrow> bool" where
  "malformed v =
     (case v of
        PDict vd \<Rightarrow> map_of vd ''_name'' = None
      | PList vs \<Rightarrow> \<not> list_all is_scalar vs
      | _ \<Rightarrow> False)"


text \<open>
  The dictionaries as objects, for the claim about the caller's mapping: a heap is the
  list of the dictionaries allocated so far and a reference is an index. \<open>dict(experiment)\<close>
  (line 128) and \<open>{}\<close> (line 134) allocate; the classification loops and \<open>_build_items\<close>
  get the references \<open>config\<close> and \<open>experiment\<close> and update the objects behind them. The
  values inside a dictionary are never updated in place by this code, so they stay values.
\<close>

type_synonym heap = "pval dict list"

definition new_dict :: "pval dict \<Rightarrow> heap \<Rightarrow> nat \<times> heap" where
  "new_dict d h = (length h, h @ [d])"

definition classify_heap :: "string dict \<Rightarrow> nat \<Rightarrow> nat \<Rightarrow> heap \<Rightarrow> heap \<times> factory dict" where
  "classify_heap env config experiment h =
     (let b = classify env (h ! config)
      in (h[experiment := b_experiment b, config := b_config b], b_factories b))"

definition build_items_heap ::
  "registry \<Rightarrow> nat \<Rightarrow> nat \<Rightarrow> nat \<Rightarrow> heap \<times> factory dict \<Rightarrow> (heap \<times> factory dict) \<times> error option" where
  "build_items_heap reg m config experiment hf =
     (let r = build_items reg m
                \<lparr>b_config = fst hf ! config, b_experiment = fst hf ! experiment,
                 b_factories = snd hf\<rparr>
      in (((fst hf)[config := b_config (fst r), experiment := b_experiment (fst r)],
           b_factories (fst r)),
          snd r))"

definition ExperimentConfig_init_heap ::
  "registry \<Rightarrow> heap \<Rightarrow> nat \<Rightarrow> string dict \<Rightarrow> heap \<times> error option" where
  "ExperimentConfig_init_heap reg h experiment env =
     (let (config, h1) = new_dict (h ! experiment) h;
          (experiment', h2) = new_dict [] h1;
          hf = classify_heap env config experiment' h2;
          r0 = build_items_heap reg 0 config experiment' hf
      in if \<not> passes (snd r0) then (fst (fst r0), snd r0)
         else
           (let r1 = build_items_heap reg 1 config experiment' (fst r0)
            in if \<not> passes (snd r1) then (fst (fst r1), snd r1)
               else
                 (let r2 = build_items_heap reg 2 config experiment' (fst r1)
                  in (fst (fst r2), snd r2))))"









section \<open>Properties of the environment substitution\<close>

lemma env_keys_mset: "mset (env_keys env) = mset (map fst env)"
  by (simp add: env_keys_def)

lemma env_keys_sorted: "sorted_wrt (\<lambda>a b. length b \<le> length a) (env_keys env)"
proof -
  have "sorted (map length (sort_key length (rev (map fst env))))" by simp
  then have "sorted_wrt (\<lambda>a b. length a \<le> length b) (sort_key length (rev (map fst env)))"
    by (simp add: sorted_map)
  then show ?thesis
    unfolding env_keys_def by (simp add: sorted_wrt_rev)
qed

lemma env_keys_stable:
  "filter (\<lambda>k. length k = n) (env_keys env) = filter (\<lambda>k. length k = n) (map fst env)"
proof -
  have "filter (\<lambda>k. length k = n) (sort_key length (rev (map fst env)))
        = filter (\<lambda>k. length k = n) (rev (map fst env))"
    by (rule sort_key_stable)
  then show ?thesis unfolding env_keys_def by (simp add: rev_filter[symmetric])
qed

lemma sorted_wrt_takeWhile_before:
  assumes "sorted_wrt R xs" "k \<in> set xs" "x \<in> set (takeWhile (\<lambda>y. y \<noteq> k) xs)"
  shows "R x k"
  using assms
proof (induction xs)
  case Nil
  then show ?case by simp
next
  case (Cons a xs)
  then show ?case by (auto split: if_splits)
qed

lemma shorter_key_not_before:
  assumes "length p < length k" "k \<in> fst ` set env"
  shows "p \<notin> set (takeWhile (\<lambda>y. y \<noteq> k) (env_keys env))"
proof
  assume a: "p \<in> set (takeWhile (\<lambda>y. y \<noteq> k) (env_keys env))"
  have "k \<in> set (env_keys env)"
    using assms(2) env_keys_mset[of env] by (metis mset_eq_setD set_map)
  from sorted_wrt_takeWhile_before[OF env_keys_sorted this a] assms(1) show False by simp
qed

lemma py_replace_absent:
  "old \<noteq> [] \<Longrightarrow> \<forall>xs ys. s \<noteq> xs @ old @ ys \<Longrightarrow> py_replace old new s = s"
proof (induction s)
  case Nil
  then show ?case by (simp add: py_replace.simps)
next
  case (Cons c s)
  have np: "\<not> prefix old (c # s)"
  proof
    assume "prefix old (c # s)"
    then obtain ys where "c # s = old @ ys" by (auto simp: prefix_def)
    then have "c # s = [] @ old @ ys" by simp
    with Cons.prems(2) show False by blast
  qed
  have "\<forall>xs ys. s \<noteq> xs @ old @ ys"
  proof (intro allI notI)
    fix xs ys assume "s = xs @ old @ ys"
    then have "c # s = (c # xs) @ old @ ys" by simp
    with Cons.prems(2) show False by blast
  qed
  with Cons.IH Cons.prems(1) have "py_replace old new s = s" by simp
  with np Cons.prems(1) show ?case by (subst py_replace.simps) simp
qed

lemma py_replace_match:
  "old \<noteq> [] \<Longrightarrow> py_replace old new (old @ s) = new @ py_replace old new s"
  by (subst py_replace.simps) simp

lemma py_replace_skip:
  "old \<noteq> [] \<Longrightarrow> \<not> prefix old (c # t) \<Longrightarrow> py_replace old new (c # t) = c # py_replace old new t"
  by (subst py_replace.simps) simp

lemma py_replace_empty_key:
  "py_replace [] new t = concat (map (\<lambda>c. new @ [c]) t) @ new"
  by (subst py_replace.simps) simp

text \<open>
  The leftmost occurrence: when the key does not occur in \<open>a\<close> followed by all but the
  last character of the key, the occurrence after \<open>a\<close> is the first one; it is replaced
  and the search goes on behind it.
\<close>

lemma py_replace_leftmost:
  assumes "old \<noteq> []" and "\<not> sublist old (a @ butlast old)"
  shows "py_replace old new (a @ old @ t) = a @ new @ py_replace old new t"
  using assms(2)
proof (induction a)
  case Nil
  from py_replace_match[OF assms(1)] show ?case by simp
next
  case (Cons c a)
  have np: "\<not> prefix old (c # a @ old @ t)"
  proof
    assume p: "prefix old (c # a @ old @ t)"
    from assms(1) obtain b x where ob: "old = b @ [x]" by (cases old rule: rev_cases) auto
    then have bl: "butlast old = b" by simp
    have e: "c # a @ old @ t = ((c # a) @ b) @ (x # t)" by (simp add: ob)
    have "length old \<le> length ((c # a) @ b)" by (simp add: ob)
    with p have "prefix old ((c # a) @ b)"
      unfolding e prefix_append by (auto dest: prefix_length_le)
    with bl have "prefix old ((c # a) @ butlast old)" by simp
    then have "sublist old ((c # a) @ butlast old)" by (rule prefix_imp_sublist)
    with Cons.prems show False by simp
  qed
  from Cons.prems have "\<not> sublist old (a @ butlast old)"
    by (auto simp: sublist_Cons_right)
  from Cons.IH[OF this] py_replace_skip[OF assms(1) np] show ?case by simp
qed


lemma do_env_subs_passes:
  "do_env_subs env (PStr s) =
     PStr (foldl (\<lambda>acc k. py_replace k (the (map_of env k)) acc) s (env_keys env))"
proof -
  have in_env: "\<And>k. k \<in> set (env_keys env) \<Longrightarrow> \<exists>r. map_of env k = Some r"
  proof -
    fix k assume "k \<in> set (env_keys env)"
    then have "k \<in> fst ` set env"
      using env_keys_mset[of env] by (metis mset_eq_setD set_map)
    then show "\<exists>r. map_of env k = Some r"
      by (metis domD dom_map_of_conv_image_fst)
  qed
  have "\<And>ks. set ks \<subseteq> set (env_keys env) \<Longrightarrow>
      foldl (\<lambda>v_upd env_key. case map_of env env_key of Some r \<Rightarrow> py_replace env_key r v_upd | None \<Rightarrow> v_upd) s ks
      = foldl (\<lambda>acc k. py_replace k (the (map_of env k)) acc) s ks"
  proof -
    fix ks show "set ks \<subseteq> set (env_keys env) \<Longrightarrow>
      foldl (\<lambda>v_upd env_key. case map_of env env_key of Some r \<Rightarrow> py_replace env_key r v_upd | None \<Rightarrow> v_upd) s ks
      = foldl (\<lambda>acc k. py_replace k (the (map_of env k)) acc) s ks"
    proof (induction ks arbitrary: s)
      case Nil
      then show ?case by simp
    next
      case (Cons k ks)
      from Cons.prems have "k \<in> set (env_keys env)" by simp
      from in_env[OF this] obtain r where "map_of env k = Some r" by blast
      with Cons show ?case by simp
    qed
  qed
  then show ?thesis by (simp add: do_env_subs_def)
qed

text \<open>
  C7, amended. A non-string scalar is returned unchanged. On a string every key of
  \<open>env\<close> gets one replacement pass, in the order \<open>env_keys\<close>: longest key first,
  keys of equal length in the order of \<open>env\<close>; so the pass of a key that is a proper
  prefix of a longer key never comes before the pass of the longer key. A pass works on
  the text the earlier passes left and replaces the non-overlapping occurrences of its
  key found from the left: where the text starts with the key, the key is replaced and
  the search goes on behind it; where it does not, the first character is kept and the
  search goes on behind it; so the leftmost occurrence is replaced first, and a text
  without the key is left as it is. An empty key is replaced before every character and
  at the end.
\<close>

theorem C7_env_subs_longest_first:
  "(\<not> is_str v \<longrightarrow> do_env_subs env v = v)
   \<and> do_env_subs env (PStr s) =
       PStr (foldl (\<lambda>acc k. py_replace k (the (map_of env k)) acc) s (env_keys env))
   \<and> mset (env_keys env) = mset (map fst env)
   \<and> sorted_wrt (\<lambda>a b. length b \<le> length a) (env_keys env)
   \<and> (\<forall>n. filter (\<lambda>k. length k = n) (env_keys env) = filter (\<lambda>k. length k = n) (map fst env))
   \<and> (strict_prefix p k \<and> k \<in> fst ` set env \<longrightarrow>
        p \<notin> set (takeWhile (\<lambda>y. y \<noteq> k) (env_keys env)))
   \<and> (old \<noteq> [] \<longrightarrow> py_replace old new (old @ t) = new @ py_replace old new t)
   \<and> (old \<noteq> [] \<and> \<not> sublist old t \<longrightarrow> py_replace old new t = t)
   \<and> (old \<noteq> [] \<and> \<not> prefix old (c # t) \<longrightarrow>
        py_replace old new (c # t) = c # py_replace old new t)
   \<and> (old \<noteq> [] \<and> \<not> sublist old (a @ butlast old) \<longrightarrow>
        py_replace old new (a @ old @ t) = a @ new @ py_replace old new t)
   \<and> py_replace [] new t = concat (map (\<lambda>c. new @ [c]) t) @ new"
proof -
  have a: "\<not> is_str v \<longrightarrow> do_env_subs env v = v"
    by (cases v) (simp_all add: do_env_subs_def)
  have f: "strict_prefix p k \<and> k \<in> fst ` set env \<longrightarrow>
        p \<notin> set (takeWhile (\<lambda>y. y \<noteq> k) (env_keys env))"
    using shorter_key_not_before[of p k env] by (auto dest: prefix_length_less)
  have h: "old \<noteq> [] \<and> \<not> sublist old t \<longrightarrow> py_replace old new t = t"
    using py_replace_absent[of old t new] by (auto simp: sublist_def)
  have i: "old \<noteq> [] \<and> \<not> prefix old (c # t) \<longrightarrow>
        py_replace old new (c # t) = c # py_replace old new t"
    using py_replace_skip[of old c t new] by simp
  have j: "old \<noteq> [] \<and> \<not> sublist old (a @ butlast old) \<longrightarrow>
        py_replace old new (a @ old @ t) = a @ new @ py_replace old new t"
    using py_replace_leftmost[of old a new t] by simp
  have g: "old \<noteq> [] \<longrightarrow> py_replace old new (old @ t) = new @ py_replace old new t"
    using py_replace_match[of old new t] by simp
  show ?thesis
    by (intro conjI a do_env_subs_passes env_keys_mset env_keys_sorted allI env_keys_stable
          f g h i j py_replace_empty_key)
qed

theorem C7_witness:
  "\<not> is_str (PInt 3)
   \<and> do_env_subs [(''AB'', ''p''), (''ABC'', ''k'')] (PInt 3) = PInt 3
   \<and> strict_prefix ''AB'' ''ABC'' \<and> ''ABC'' \<in> fst ` set [(''AB'', ''p''), (''ABC'', ''k'')]
   \<and> ''AB'' \<notin> set (takeWhile (\<lambda>y. y \<noteq> ''ABC'') (env_keys [(''AB'', ''p''), (''ABC'', ''k'')]))
   \<and> ''AB'' \<noteq> [] \<and> \<not> sublist ''AB'' ''xyz''
   \<and> py_replace ''AB'' ''p'' (''AB'' @ ''xyz'') = ''p'' @ py_replace ''AB'' ''p'' ''xyz''
   \<and> py_replace ''AB'' ''p'' ''xyz'' = ''xyz''
   \<and> \<not> prefix ''AB'' (CHR ''z'' # ''xyz'')
   \<and> py_replace ''AB'' ''p'' (CHR ''z'' # ''xyz'') = CHR ''z'' # py_replace ''AB'' ''p'' ''xyz''
   \<and> \<not> sublist ''AB'' (''xA'' @ butlast ''AB'')
   \<and> py_replace ''AB'' ''p'' (''xA'' @ ''AB'' @ ''xyz'') = ''xA'' @ ''p'' @ ''xyz''"
  using C7_env_subs_longest_first [of "PInt 3" "[(''AB'', ''p''), (''ABC'', ''k'')]" "''ABCAB''"
      "''AB''" "''ABC''" "''AB''" "''p''" "''xyz''" "CHR ''z''" "''xA''"]
  by (simp add: sublist_Cons_right)

text \<open>
  C7 as stated fails: the longer key \<open>ABC\<close> matches the value \<open>ABCDE\<close> at its start,
  the pass of \<open>CDE\<close> (as long, declared first) removes the match, and the prefix
  \<open>AB\<close> is the key replaced there.
\<close>

theorem C7_counterexample:
  "strict_prefix ''AB'' ''ABC'' \<and> prefix ''ABC'' ''ABCDE''
   \<and> do_env_subs [(''CDE'', ''q''), (''ABC'', ''k''), (''AB'', ''p'')] (PStr ''ABCDE'') = PStr ''pq''"
  by (simp add: do_env_subs_def env_keys_def py_replace.simps)

section \<open>The parameters of one descriptor\<close>

lemma dict_in_map_of: "dict_in k d \<longleftrightarrow> map_of d k \<noteq> None"
  by (simp add: dict_in_def map_of_eq_None_iff)

lemma dict_in_dict_set [simp]: "dict_in a (dict_set k v d) \<longleftrightarrow> a = k \<or> dict_in a d"
  by (auto simp: dict_in_def dict_set_def dom_update)

lemma keys_dict_set: "fst ` set (dict_set k v d) = insert k (fst ` set d)"
  by (simp add: dict_set_def dom_update)

lemma map_of_dict_set: "map_of (dict_set k v d) = (map_of d)(k \<mapsto> v)"
  by (simp add: dict_set_def update_conv')

lemma distinct_dict_set: "distinct (map fst d) \<Longrightarrow> distinct (map fst (dict_set k v d))"
  by (simp add: dict_set_def distinct_update)

lemma dict_set_twice [simp]: "dict_set k v (dict_set k v' d) = dict_set k v d"
  by (simp add: dict_set_def)

lemma dict_set_new: "\<not> dict_in k d \<Longrightarrow> dict_set k v d = d @ [(k, v)]"
  by (induction d) (auto simp: dict_set_def dict_in_def)

lemma param_list_loop_length:
  "param_list_loop experiment al = Inr xs \<Longrightarrow> length xs \<le> length al"
  by (induction al arbitrary: xs) (auto split: sum.splits option.splits)

lemma param_list_loop_value:
  "param_list_loop experiment al = Inr xs \<Longrightarrow>
     (length xs = length al \<longleftrightarrow> list_all (key_resolved experiment) al)
     \<and> (length xs = length al \<longrightarrow> xs = map (key_value experiment) al)"
proof (induction al arbitrary: xs)
  case Nil
  then show ?case by simp
next
  case (Cons p ps)
  show ?case
  proof (cases "py_lookup experiment p")
    case (Inl e)
    with Cons.prems show ?thesis by simp
  next
    case (Inr r)
    show ?thesis
    proof (cases r)
      case None
      with Inr Cons.prems have xs: "xs = []" by simp
      from None Inr have "\<not> key_resolved experiment p"
        by (cases p) (auto simp: key_resolved_def dict_in_map_of)
      with xs show ?thesis by simp
    next
      case (Some x)
      with Inr Cons.prems obtain ys where ys: "param_list_loop experiment ps = Inr ys" "xs = x # ys"
        by (auto split: sum.splits)
      from Some Inr have kr: "key_resolved experiment p" "key_value experiment p = x"
        by (cases p; auto simp: key_resolved_def key_value_def dict_in_map_of)+
      from Cons.IH[OF ys(1)] ys(2) kr show ?thesis by simp
    qed
  qed
qed

lemma fill_arg_Inr:
  assumes "fill_arg m config experiment lp np dp arg st = Inr st'"
  shows "fst st' = (case self_or arg (arg_source m config experiment (map_of lp) np dp arg) of
                      Some x \<Rightarrow> dict_set arg x (fst st) | None \<Rightarrow> fst st)"
proof (cases "map_of lp arg")
  case (Some lit)
  with assms show ?thesis by (auto simp: fill_arg_def arg_source_def self_or_def)
next
  case nolit: None
  show ?thesis
  proof (cases "map_of np arg")
    case (Some ali)
    show ?thesis
    proof (cases ali)
      case (PList al)
      with Some nolit assms obtain xs where xs: "param_list_loop experiment al = Inr xs"
        by (auto simp: fill_arg_def Let_def split: sum.splits)
      from param_list_loop_value[OF xs] PList Some nolit assms xs show ?thesis
        by (auto simp: fill_arg_def Let_def arg_source_def self_or_def alias_value_def split: if_splits)
    next
      case (PStr s)
      with Some nolit assms show ?thesis
        by (auto simp: fill_arg_def Let_def arg_source_def self_or_def alias_value_def
                 split: if_splits option.splits)
    qed (use Some nolit assms in \<open>auto simp: fill_arg_def Let_def arg_source_def self_or_def alias_value_def
                 split: if_splits option.splits\<close>)
  next
    case None
    with nolit assms show ?thesis
      by (auto simp: fill_arg_def Let_def arg_source_def self_or_def default_applies_def
               split: if_splits option.splits)
  qed
qed

lemma fill_args_Inr:
  "fill_args m config experiment lp np dp as st = Inr st' \<Longrightarrow>
     fst st' = foldl (store_arg (arg_source m config experiment (map_of lp) np dp)) (fst st) as"
proof (induction as arbitrary: st)
  case Nil
  then show ?case by simp
next
  case (Cons a as)
  then obtain st1 where s1: "fill_arg m config experiment lp np dp a st = Inr st1"
     and s2: "fill_args m config experiment lp np dp as st1 = Inr st'"
    by (auto split: sum.splits)
  from fill_arg_Inr[OF s1] Cons.IH[OF s2] show ?case by (simp add: store_arg_def)
qed

lemma store_arg_map_of:
  "map_of (store_arg src params b) a =
     (if a = b \<and> self_or b (src b) \<noteq> None then self_or b (src b) else map_of params a)"
  by (cases "self_or b (src b)") (auto simp: store_arg_def map_of_dict_set)

lemma store_arg_distinct:
  "distinct (map fst params) \<Longrightarrow> distinct (map fst (store_arg src params b))"
  by (cases "self_or b (src b)") (auto simp: store_arg_def distinct_dict_set)

lemma foldl_store_arg_map_of:
  "map_of (foldl (store_arg src) params as) a =
     (if a \<in> set as \<and> self_or a (src a) \<noteq> None then self_or a (src a) else map_of params a)"
  by (induction as arbitrary: params) (auto simp: store_arg_map_of)

lemma foldl_store_arg_distinct:
  "distinct (map fst params) \<Longrightarrow> distinct (map fst (foldl (store_arg src) params as))"
  by (induction as arbitrary: params) (auto simp: store_arg_distinct)

lemma butlast_underscore:
  "p \<noteq> [] \<Longrightarrow> last p = CHR ''_'' \<Longrightarrow> (butlast p = a \<longleftrightarrow> p = a @ ''_'')"
  by (metis append_butlast_last_id butlast_snoc)

lemma literal_params_loop_map_of:
  "literal_params_loop v acc = Inr lp \<Longrightarrow> distinct (map fst v) \<Longrightarrow>
     map_of lp a = (case map_of v (a @ ''_'') of Some x \<Rightarrow> Some x | None \<Rightarrow> map_of acc a)"
proof (induction v acc rule: literal_params_loop.induct)
  case (1 literal_params)
  then show ?case by simp
next
  case (2 p pv rest literal_params)
  from "2.prems"(1) have ne: "p \<noteq> []" by (auto split: if_splits)
  from "2.prems"(2) have d: "distinct (map fst rest)" and nin: "map_of rest p = None"
    by (auto simp: map_of_eq_None_iff)
  show ?case
  proof (cases "last p = CHR ''_''")
    case True
    with ne "2.prems"(1) have l: "literal_params_loop rest (dict_set (butlast p) pv literal_params) = Inr lp"
      by simp
    from "2.IH"(1)[OF ne True l d] butlast_underscore[OF ne True, of a] nin
    show ?thesis by (auto simp: map_of_dict_set split: option.splits)
  next
    case False
    then have neq: "p \<noteq> a @ ''_''" by auto
    from False ne "2.prems"(1) have l: "literal_params_loop rest literal_params = Inr lp"
      by (auto split: pval.splits if_splits)
    have "map_of lp a = (case map_of rest (a @ ''_'') of Some x \<Rightarrow> Some x | None \<Rightarrow> map_of literal_params a)"
    proof (cases pv)
      case (PList pvs)
      with False ne "2.prems"(1) have la: "list_all is_str pvs" by (auto split: if_splits)
      from "2.IH"(3)[OF ne False PList la l d] show ?thesis .
    next
      case (PStr s)
      from "2.IH"(2)[OF ne False PStr l d] show ?thesis .
    qed (use False ne "2.prems"(1) in auto)
    with neq show ?thesis by simp
  qed
qed

lemma resolve_params_map_of:
  assumes "resolve_params m config experiment c v = Inr (params, p2k)" "distinct (map fst v)"
  shows "map_of params a =
           (if a \<in> set (tl (args c)) then self_or a (param_source m config experiment c v a) else None)"
    and "distinct (map fst params)"
proof -
  from assms(1) obtain lp where lp: "literal_params_loop v [] = Inr lp"
    and fa: "fill_args m config experiment lp (named_params_of v) (default_params_of c)
               (tl (args c)) ([], []) = Inr (params, p2k)"
    by (auto simp: resolve_params_def split: sum.splits)
  have "map_of lp = literal_of v"
    using literal_params_loop_map_of[OF lp assms(2)]
    by (auto simp: literal_of_def fun_eq_iff split: option.splits)
  with fill_args_Inr[OF fa]
  have p: "params = foldl (store_arg (param_source m config experiment c v)) [] (tl (args c))"
    by (simp add: param_source_def[abs_def])
  show "map_of params a =
           (if a \<in> set (tl (args c)) then self_or a (param_source m config experiment c v a) else None)"
    unfolding p foldl_store_arg_map_of by (auto simp: self_or_def split: option.splits)
  show "distinct (map fst params)"
    unfolding p by (rule foldl_store_arg_distinct) simp
qed


lemma build_item_not_dict:
  "\<not> is_dict v \<Longrightarrow> build_item reg m config (k, v) s = (s, Some (ValueError (NotADict k)))"
  by (cases v) (simp_all add: build_item_def)

lemma classes_get_Some: "classes_get reg name = Inr (Some c) \<Longrightarrow> \<exists>n. name = PStr n \<and> reg n = Some c"
  by (cases name) auto

lemma py_lookup_Inl: "py_lookup d p = Inl e \<Longrightarrow> e = TypeError"
  by (cases p) auto

lemma param_list_loop_Inl: "param_list_loop experiment al = Inl e \<Longrightarrow> e = TypeError"
  by (induction al) (auto split: sum.splits option.splits dest: py_lookup_Inl)

lemma fill_arg_Inl: "fill_arg m config experiment lp np dp arg st = Inl e \<Longrightarrow> e = TypeError"
  by (auto simp: fill_arg_def Let_def split: option.splits pval.splits sum.splits if_splits
           dest: py_lookup_Inl param_list_loop_Inl)

lemma fill_args_Inl: "fill_args m config experiment lp np dp as st = Inl e \<Longrightarrow> e = TypeError"
  by (induction as arbitrary: st) (auto split: sum.splits dest: fill_arg_Inl)

lemma literal_params_loop_Inl:
  "literal_params_loop v acc = Inl e \<Longrightarrow> e = IndexError \<or> (\<exists>ve. e = ValueError ve)"
  by (induction v acc rule: literal_params_loop.induct) (auto split: if_splits pval.splits)

lemma resolve_params_Inl:
  "resolve_params m config experiment c v = Inl e \<Longrightarrow> \<not> passes (Some e)"
  by (auto simp: resolve_params_def split: sum.splits
           dest: fill_args_Inl literal_params_loop_Inl)

lemma build_item_cases [consumes 1, case_names raised clash built pending]:
  assumes "build_item reg m config (k, v) s = (s', r)"
  obtains
    (raised) e where "r = Some e" "s' = s"
  | (clash) vd n c params p2k obj where "v = PDict vd" "map_of vd ''_name'' = Some (PStr n)"
      "reg n = Some c" "resolve_params m config (experiment_dict s) c vd = Inr (params, p2k)"
      "int (length params) = int (length (args c)) - 1" "init c params = Inr obj"
      "r = Some TypeError"
      "s' = s\<lparr>experiment_dict := dict_set k obj (experiment_dict s)\<rparr>"
  | (built) vd n c params p2k obj where "v = PDict vd" "map_of vd ''_name'' = Some (PStr n)"
      "reg n = Some c" "resolve_params m config (experiment_dict s) c vd = Inr (params, p2k)"
      "int (length params) = int (length (args c)) - 1" "init c params = Inr obj" "r = None"
      "s' = s\<lparr>experiment_dict := dict_set k obj (experiment_dict s),
              factories := dict_set k (PluginFactory n (Some p2k) [] params) (factories s),
              configured := insert k (configured s)\<rparr>"
  | (pending) vd n c params p2k where "v = PDict vd" "map_of vd ''_name'' = Some (PStr n)"
      "reg n = Some c" "resolve_params m config (experiment_dict s) c vd = Inr (params, p2k)"
      "int (length params) \<noteq> int (length (args c)) - 1" "r = None"
      "s' = s\<lparr>unconfigured :=
                dict_set k {arg \<in> set (tl (args c)). \<not> dict_in arg params} (unconfigured s)\<rparr>"
proof (cases v)
  case (PDict vd)
  show ?thesis
  proof (cases "map_of vd ''_name''")
    case None
    with PDict assms raised show ?thesis by (auto simp: build_item_def)
  next
    case (Some name)
    show ?thesis
    proof (cases "classes_get reg name")
      case (Inl e)
      then have "e = TypeError" by (cases name) auto
      with Inl Some PDict assms raised show ?thesis by (auto simp: build_item_def)
    next
      case (Inr co)
      show ?thesis
      proof (cases co)
        case None
        with Inr Some PDict assms raised show ?thesis by (auto simp: build_item_def)
      next
        case c: (Some c)
        with Inr classes_get_Some obtain n where n: "name = PStr n" "reg n = Some c" by blast
        show ?thesis
        proof (cases "resolve_params m config (experiment_dict s) c vd")
          case (Inl e)
          with Inl c Inr Some PDict assms raised show ?thesis by (auto simp: build_item_def)
        next
          case rp: (Inr pp)
          obtain params p2k where pp: "pp = (params, p2k)" by (cases pp)
          show ?thesis
          proof (cases "int (length params) = int (length (args c)) - 1")
            case False
            with pp rp c Inr Some PDict assms n pending[of vd n c params p2k] show ?thesis
              by (auto simp: build_item_def)
          next
            case True
            show ?thesis
            proof (cases "init c params")
              case (Inl msg)
              with True pp rp c Inr Some PDict assms raised show ?thesis
                by (auto simp: build_item_def)
            next
              case (Inr obj)
              show ?thesis
              proof (cases "dict_in ''self'' params \<or> dict_in ''cls'' params
                             \<or> dict_in ''param2config_key'' params")
                case True
                with Inr \<open>int (length params) = int (length (args c)) - 1\<close> pp rp c
                  \<open>classes_get reg name = Inr co\<close> Some PDict assms
                  n clash[of vd n c params p2k obj] show ?thesis
                  by (auto simp: build_item_def Let_def)
              next
                case False
                with Inr \<open>int (length params) = int (length (args c)) - 1\<close> pp rp c
                  \<open>classes_get reg name = Inr co\<close> Some PDict assms n
                  built[of vd n c params p2k obj] show ?thesis
                  by (auto simp: build_item_def Let_def)
              qed
            qed
          qed
        qed
      qed
    qed
  qed
qed (use assms raised in \<open>auto simp: build_item_def\<close>)
lemma resolve_params_keys:
  assumes "resolve_params m config experiment c v = Inr (params, p2k)" "distinct (map fst v)"
  shows "fst ` set params =
           {a \<in> set (tl (args c)). self_or a (param_source m config experiment c v a) \<noteq> None}"
proof -
  have "fst ` set params = {a. map_of params a \<noteq> None}"
    by (auto simp: map_of_eq_None_iff)
  also have "\<dots> = {a \<in> set (tl (args c)). self_or a (param_source m config experiment c v a) \<noteq> None}"
    by (auto simp: resolve_params_map_of(1)[OF assms])
  finally show ?thesis .
qed

lemma resolve_params_ready:
  assumes "resolve_params m config experiment c v = Inr (params, p2k)" "distinct (map fst v)"
  shows "int (length params) = int (length (args c)) - 1 \<longleftrightarrow>
           args c \<noteq> [] \<and> distinct (tl (args c))
           \<and> (\<forall>a\<in>set (tl (args c)). self_or a (param_source m config experiment c v a) \<noteq> None)"
proof -
  let ?K = "{a \<in> set (tl (args c)). self_or a (param_source m config experiment c v a) \<noteq> None}"
  have len: "length params = card ?K"
    using resolve_params_keys[OF assms] resolve_params_map_of(2)[OF assms]
    by (metis distinct_card length_map set_map)
  have sub: "?K \<subseteq> set (tl (args c))" by auto
  have le: "card ?K \<le> card (set (tl (args c)))" by (rule card_mono) (use sub in auto)
  have le2: "card (set (tl (args c))) \<le> length (tl (args c))" by (rule card_length)
  show ?thesis
  proof
    assume eq: "int (length params) = int (length (args c)) - 1"
    then have ne: "args c \<noteq> []" by auto
    with eq have "length params = length (tl (args c))" by (cases "args c") auto
    with len le le2 have c1: "card (set (tl (args c))) = length (tl (args c))"
      and c2: "card ?K = card (set (tl (args c)))" by auto
    from c1 have d: "distinct (tl (args c))" by (rule card_distinct)
    from c2 sub have "?K = set (tl (args c))" by (intro card_subset_eq) auto
    then have "\<forall>a\<in>set (tl (args c)). self_or a (param_source m config experiment c v a) \<noteq> None"
      by blast
    with ne d show "args c \<noteq> [] \<and> distinct (tl (args c))
           \<and> (\<forall>a\<in>set (tl (args c)). self_or a (param_source m config experiment c v a) \<noteq> None)"
      by blast
  next
    assume r: "args c \<noteq> [] \<and> distinct (tl (args c))
           \<and> (\<forall>a\<in>set (tl (args c)). self_or a (param_source m config experiment c v a) \<noteq> None)"
    then have "?K = set (tl (args c))" by auto
    with len r have "length params = length (tl (args c))" by (simp add: distinct_card)
    with r show "int (length params) = int (length (args c)) - 1" by (cases "args c") auto
  qed
qed

text \<open>
  C2, amended. For a parameter \<open>arg\<close> after the receiver, \<open>params[arg]\<close> is: the
  literal override (the value of the descriptor's key \<open>arg_\<close>) whenever there is one,
  whatever else the configuration holds; otherwise, for a parameter other than the
  reserved \<open>experiment_config\<close>, the value \<open>param_source\<close> gives: if the descriptor
  declares an alias for \<open>arg\<close>, the alias alone decides (the single key resolved, or
  every key of the list resolved) and an unresolved alias leaves the parameter unfilled
  without trying a key match or a default; with no alias, the resolved key named \<open>arg\<close>;
  failing that the constructor default, in tier 1 when \<open>arg\<close> is not a pending key and
  in tier 2 always. The reserved parameter \<open>experiment_config\<close> is always filled.
\<close>

theorem C2_parameter_source_priority:
  assumes "resolve_params m config experiment c v = Inr (params, p2k)"
    and "distinct (map fst v)" and "arg \<in> set (tl (args c))"
  shows "(\<forall>l. literal_of v arg = Some l \<longrightarrow> map_of params arg = Some l)
       \<and> (arg \<noteq> ''experiment_config'' \<longrightarrow>
            map_of params arg = param_source m config experiment c v arg)
       \<and> (arg = ''experiment_config'' \<longrightarrow> dict_in arg params)"
  using resolve_params_map_of(1)[OF assms(1,2), of arg] assms(3)
  by (auto simp: self_or_def param_source_def arg_source_def dict_in_map_of split: option.splits)

theorem C2_witness:
  "resolve_params 2 [] [(''a'', PInt 5)] Pair
       [(''_name'', PStr ''Pair''), (''items'', PList [PStr ''a''])]
     = Inr ([(''items'', PList [PInt 5]), (''size'', PInt 0)],
            [(''items'', PList [PStr ''a'']), (''size'', PNone)])
   \<and> ''size'' \<in> set (tl (args Pair))
   \<and> map_of [(''items'', PList [PInt 5]), (''size'', PInt 0)] ''size''
       = param_source 2 [] [(''a'', PInt 5)] Pair
           [(''_name'', PStr ''Pair''), (''items'', PList [PStr ''a''])] ''size''
   \<and> resolve_params 0 [] [(''value'', PInt 5)] Box
       [(''_name'', PStr ''Box''), (''value_'', PInt 9)]
     = Inr ([(''value'', PInt 9)], [(''value'', PNone)])
   \<and> literal_of [(''_name'', PStr ''Box''), (''value_'', PInt 9)] ''value'' = Some (PInt 9)
   \<and> map_of [(''value'', PInt 9)] ''value'' = Some (PInt 9)
   \<and> resolve_params 0 [] [] Probe [(''_name'', PStr ''Probe'')]
     = Inr ([(''experiment_config'', PSelf)], [(''experiment_config'', PStr ''experiment_config'')])
   \<and> dict_in ''experiment_config'' [(''experiment_config'', PSelf)]"
proof -
  have r1: "resolve_params 2 [] [(''a'', PInt 5)] Pair
       [(''_name'', PStr ''Pair''), (''items'', PList [PStr ''a''])]
     = Inr ([(''items'', PList [PInt 5]), (''size'', PInt 0)],
            [(''items'', PList [PStr ''a'']), (''size'', PNone)])"
    by code_simp
  have d1: "distinct (map fst [(''_name'', PStr ''Pair''), (''items'', PList [PStr ''a''])])"
    by simp
  have a1: "''size'' \<in> set (tl (args Pair))" by (simp add: Pair_def)
  have r2: "resolve_params 0 [] [(''value'', PInt 5)] Box
       [(''_name'', PStr ''Box''), (''value_'', PInt 9)]
     = Inr ([(''value'', PInt 9)], [(''value'', PNone)])"
    by code_simp
  have d2: "distinct (map fst [(''_name'', PStr ''Box''), (''value_'', PInt 9)])" by simp
  have a2: "''value'' \<in> set (tl (args Box))" by (simp add: Box_def)
  have l2: "literal_of [(''_name'', PStr ''Box''), (''value_'', PInt 9)] ''value'' = Some (PInt 9)"
    by (simp add: literal_of_def)
  have r3: "resolve_params 0 [] [] Probe [(''_name'', PStr ''Probe'')]
     = Inr ([(''experiment_config'', PSelf)], [(''experiment_config'', PStr ''experiment_config'')])"
    by code_simp
  have d3: "distinct (map fst [(''_name'', PStr ''Probe'')])" by simp
  have a3: "''experiment_config'' \<in> set (tl (args Probe))" by (simp add: Probe_def)
  from C2_parameter_source_priority[OF r1 d1 a1] C2_parameter_source_priority[OF r2 d2 a2]
    C2_parameter_source_priority[OF r3 d3 a3] r1 r2 r3 a1 l2
  show ?thesis by simp
qed

text \<open>
  C2 as stated fails: \<open>spec_param_source\<close> is the order of the claim (the first source
  that applies). With \<open>{value: 5, b: {_name: Box, value: "a"}}\<close> and no key \<open>a\<close> the
  alias does not apply and the key match does, yet the code leaves \<open>value\<close> unfilled
  and the run ends with \<open>b\<close> unconfigured.
\<close>

theorem C2_counterexample:
  "resolve_params 0 [] [(''value'', PInt 5)] Box
       [(''_name'', PStr ''Box''), (''value'', PStr ''a'')]
     = Inr ([], [(''value'', PStr ''a'')])
   \<and> spec_param_source 0 [] [(''value'', PInt 5)] Box
       [(''_name'', PStr ''Box''), (''value'', PStr ''a'')] ''value'' = Some (PInt 5)
   \<and> snd (ExperimentConfig_init example_registry
          [(''value'', PInt 5),
           (''b'', PDict [(''_name'', PStr ''Box''), (''value'', PStr ''a'')])] [])
     = Some (UnconfiguredItemsException [(''b'', {''value''})])"
  by code_simp

text \<open>
  C3, amended. For a constructor parameter given as a list alias, without a literal
  override, and other than the reserved \<open>experiment_config\<close>: the parameter is filled
  exactly when every key of the list is resolved, with the list of their values in order;
  when a key is unresolved the scan step constructs nothing and, unless it raises,
  reports the parameter among the missing ones of the descriptor.
\<close>

theorem C3_list_alias_all_keys:
  assumes "map_of v ''_name'' = Some (PStr n)" and "reg n = Some c"
    and "distinct (map fst v)" and "arg \<in> set (tl (args c))"
    and "map_of (named_params_of v) arg = Some (PList al)"
    and "literal_of v arg = None" and "arg \<noteq> ''experiment_config''"
  shows "(\<forall>params p2k. resolve_params m config (experiment_dict s) c v = Inr (params, p2k) \<longrightarrow>
            map_of params arg =
              (if list_all (key_resolved (experiment_dict s)) al
               then Some (PList (map (key_value (experiment_dict s)) al)) else None))
       \<and> (\<not> list_all (key_resolved (experiment_dict s)) al \<longrightarrow>
            (\<forall>s' r. build_item reg m config (k, PDict v) s = (s', r) \<longrightarrow>
               experiment_dict s' = experiment_dict s \<and> factories s' = factories s
               \<and> configured s' = configured s
               \<and> (r = None \<longrightarrow> (\<exists>ms. map_of (unconfigured s') k = Some ms \<and> arg \<in> ms))))"
proof -
  have src: "param_source m config (experiment_dict s) c v arg =
               (if list_all (key_resolved (experiment_dict s)) al
                then Some (PList (map (key_value (experiment_dict s)) al)) else None)"
    using assms(5,6) by (simp add: param_source_def arg_source_def alias_value_def)
  have filled: "\<And>params p2k. resolve_params m config (experiment_dict s) c v = Inr (params, p2k) \<Longrightarrow>
            map_of params arg =
              (if list_all (key_resolved (experiment_dict s)) al
               then Some (PList (map (key_value (experiment_dict s)) al)) else None)"
    using resolve_params_map_of(1)[OF _ assms(3), of m config "experiment_dict s" c _ _ arg]
      assms(4,7) src by (simp add: self_or_def)
  have pend: "experiment_dict s' = experiment_dict s \<and> factories s' = factories s
               \<and> configured s' = configured s
               \<and> (r = None \<longrightarrow> (\<exists>ms. map_of (unconfigured s') k = Some ms \<and> arg \<in> ms))"
    if un: "\<not> list_all (key_resolved (experiment_dict s)) al"
      and b: "build_item reg m config (k, PDict v) s = (s', r)" for s' r
  proof -
    have notready: "int (length params) \<noteq> int (length (args c)) - 1"
      if rp: "resolve_params m config (experiment_dict s) c v = Inr (params, p2k)" for params p2k
    proof -
      from src un have "self_or arg (param_source m config (experiment_dict s) c v arg) = None"
        using assms(7) by (simp add: self_or_def)
      with resolve_params_ready[OF rp assms(3)] assms(4) show ?thesis by blast
    qed
    from b show ?thesis
    proof (cases rule: build_item_cases)
      case (raised e)
      then show ?thesis by simp
    next
      case (clash vd n' c' params p2k obj)
      with assms(1,2) notready show ?thesis by auto
    next
      case (built vd n' c' params p2k obj)
      with assms(1,2) notready show ?thesis by auto
    next
      case (pending vd n' c' params p2k)
      with assms(1,2) have rp: "resolve_params m config (experiment_dict s) c v = Inr (params, p2k)"
        and c': "c' = c" by auto
      from filled[OF rp] un have "\<not> dict_in arg params" by (simp add: dict_in_map_of)
      with pending c' assms(4) show ?thesis by (auto simp: map_of_dict_set)
    qed
  qed
  from filled pend show ?thesis by blast
qed

theorem C3_witness:
  "map_of [(''_name'', PStr ''Pair''), (''items'', PList [PStr ''a'', PStr ''b''])] ''_name''
     = Some (PStr ''Pair'')
   \<and> example_registry ''Pair'' = Some Pair
   \<and> ''items'' \<in> set (tl (args Pair))
   \<and> map_of (named_params_of [(''_name'', PStr ''Pair''), (''items'', PList [PStr ''a'', PStr ''b''])])
         ''items'' = Some (PList [PStr ''a'', PStr ''b''])
   \<and> literal_of [(''_name'', PStr ''Pair''), (''items'', PList [PStr ''a'', PStr ''b''])] ''items'' = None
   \<and> \<not> list_all (key_resolved [(''a'', PInt 1)]) [PStr ''a'', PStr ''b'']
   \<and> fst (build_item example_registry 2 []
         (''p'', PDict [(''_name'', PStr ''Pair''), (''items'', PList [PStr ''a'', PStr ''b''])])
         \<lparr>experiment_dict = [(''a'', PInt 1)], factories = [], configured = {}, unconfigured = []\<rparr>)
      = \<lparr>experiment_dict = [(''a'', PInt 1)], factories = [], configured = {},
          unconfigured = [(''p'', {''items''})]\<rparr>
   \<and> list_all (key_resolved [(''a'', PInt 1), (''b'', PInt 2)]) [PStr ''a'', PStr ''b'']
   \<and> resolve_params 2 [] [(''a'', PInt 1), (''b'', PInt 2)] Pair
         [(''_name'', PStr ''Pair''), (''items'', PList [PStr ''a'', PStr ''b''])]
      = Inr ([(''items'', PList [PInt 1, PInt 2]), (''size'', PInt 0)],
             [(''items'', PList [PStr ''a'', PStr ''b'']), (''size'', PNone)])
   \<and> map_of [(''items'', PList [PInt 1, PInt 2]), (''size'', PInt 0)] ''items''
      = Some (PList (map (key_value [(''a'', PInt 1), (''b'', PInt 2)]) [PStr ''a'', PStr ''b'']))"
proof -
  let ?v = "[(''_name'', PStr ''Pair''), (''items'', PList [PStr ''a'', PStr ''b''])]"
  let ?s1 = "\<lparr>experiment_dict = [(''a'', PInt 1)], factories = [], configured = {},
               unconfigured = ([] :: string set dict)\<rparr>"
  let ?s2 = "\<lparr>experiment_dict = [(''a'', PInt 1), (''b'', PInt 2)], factories = [],
               configured = {}, unconfigured = ([] :: string set dict)\<rparr>"
  have h1: "map_of ?v ''_name'' = Some (PStr ''Pair'')" by simp
  have h2: "example_registry ''Pair'' = Some Pair" by (simp add: example_registry_def)
  have h3: "distinct (map fst ?v)" by simp
  have h4: "''items'' \<in> set (tl (args Pair))" by (simp add: Pair_def)
  have h5: "map_of (named_params_of ?v) ''items'' = Some (PList [PStr ''a'', PStr ''b''])"
    by (simp add: named_params_of_def)
  have h6: "literal_of ?v ''items'' = None" by (simp add: literal_of_def)
  have h7: "''items'' \<noteq> ''experiment_config''" by simp
  have u: "\<not> list_all (key_resolved [(''a'', PInt 1)]) [PStr ''a'', PStr ''b'']"
    by (simp add: key_resolved_def dict_in_def)
  have b: "build_item example_registry 2 [] (''p'', PDict ?v) ?s1
      = (\<lparr>experiment_dict = [(''a'', PInt 1)], factories = [], configured = {},
          unconfigured = [(''p'', {''items''})]\<rparr>, None)"
    by code_simp
  have r: "list_all (key_resolved [(''a'', PInt 1), (''b'', PInt 2)]) [PStr ''a'', PStr ''b'']"
    by (simp add: key_resolved_def dict_in_def)
  have rp: "resolve_params 2 [] [(''a'', PInt 1), (''b'', PInt 2)] Pair ?v
      = Inr ([(''items'', PList [PInt 1, PInt 2]), (''size'', PInt 0)],
             [(''items'', PList [PStr ''a'', PStr ''b'']), (''size'', PNone)])"
    by code_simp
  from C3_list_alias_all_keys[where reg=example_registry and m=2 and config="[]" and s="?s1"
      and k="''p''", OF h1 h2 h3 h4 h5 h6 h7] u b
  have w1: "experiment_dict (fst (build_item example_registry 2 [] (''p'', PDict ?v) ?s1))
            = [(''a'', PInt 1)]" by simp
  from C3_list_alias_all_keys[where reg=example_registry and m=2 and config="[]" and s="?s2"
      and k="''p''", OF h1 h2 h3 h4 h5 h6 h7] r rp
  have w2: "map_of [(''items'', PList [PInt 1, PInt 2]), (''size'', PInt 0)] ''items''
      = Some (PList (map (key_value [(''a'', PInt 1), (''b'', PInt 2)]) [PStr ''a'', PStr ''b'']))"
    by simp
  from h1 h2 h4 h5 h6 u b r rp w1 w2 show ?thesis by simp
qed

text \<open>
  C3 as stated fails when the descriptor also gives the parameter a literal override: the
  key \<open>missing\<close> of the list alias is unresolved and the descriptor is constructed in
  the first scan.
\<close>

theorem C3_counterexample:
  "map_of (named_params_of [(''_name'', PStr ''Box''), (''value'', PList [PStr ''missing'']),
                            (''value_'', PInt 9)]) ''value'' = Some (PList [PStr ''missing''])
   \<and> \<not> key_resolved [] (PStr ''missing'')
   \<and> ExperimentConfig_init example_registry
        [(''b'', PDict [(''_name'', PStr ''Box''), (''value'', PList [PStr ''missing'']),
                        (''value_'', PInt 9)])] []
      = (\<lparr>b_config = [],
           b_experiment = [(''b'', PObj ''Box'' [(''value'', PInt 9)])],
           b_factories = [(''b'', PluginFactory ''Box'' (Some [(''value'', PNone)]) []
                                  [(''value'', PInt 9)])]\<rparr>,
         None)"
  by code_simp

section \<open>Scans and their repetition\<close>

lemma scan_invariant:
  assumes "scan reg m config items s = (s', r)" and "P s"
    and "\<And>kv s1 s2 r1. kv \<in> set items \<Longrightarrow> P s1 \<Longrightarrow> build_item reg m config kv s1 = (s2, r1) \<Longrightarrow> P s2"
  shows "P s'"
  using assms
proof (induction items arbitrary: s)
  case Nil
  then show ?case by simp
next
  case (Cons kv rest)
  obtain s1 r1 where b: "build_item reg m config kv s = (s1, r1)"
    by (cases "build_item reg m config kv s")
  from Cons.prems(3)[of kv s s1 r1] Cons.prems(2) b have p1: "P s1" by simp
  show ?case
  proof (cases r1)
    case None
    with Cons.prems(1) b have sc: "scan reg m config rest s1 = (s', r)" by simp
    show ?thesis
    proof (rule Cons.IH[OF sc p1])
      fix kv' t1 t2 r2
      assume "kv' \<in> set rest" "P t1" "build_item reg m config kv' t1 = (t2, r2)"
      then show "P t2" using Cons.prems(3)[of kv' t1 t2 r2] by simp
    qed
  next
    case (Some e)
    with Cons.prems(1) b p1 show ?thesis by simp
  qed
qed

lemma scan_invariant_None:
  assumes "scan reg m config items s = (s', None)" and "P s"
    and "\<And>kv s1 s2. kv \<in> set items \<Longrightarrow> P s1 \<Longrightarrow> build_item reg m config kv s1 = (s2, None) \<Longrightarrow> P s2"
  shows "P s'"
  using assms
proof (induction items arbitrary: s)
  case Nil
  then show ?case by simp
next
  case (Cons kv rest)
  obtain s1 r1 where b: "build_item reg m config kv s = (s1, r1)"
    by (cases "build_item reg m config kv s")
  show ?case
  proof (cases r1)
    case None
    with Cons.prems(1) b have sc: "scan reg m config rest s1 = (s', None)" by simp
    from Cons.prems(3)[of kv s s1] Cons.prems(2) b None have p1: "P s1" by simp
    show ?thesis
    proof (rule Cons.IH[OF sc p1])
      fix kv' t1 t2
      assume "kv' \<in> set rest" "P t1" "build_item reg m config kv' t1 = (t2, None)"
      then show "P t2" using Cons.prems(3)[of kv' t1 t2] by simp
    qed
  next
    case (Some e)
    with Cons.prems(1) b show ?thesis by simp
  qed
qed

lemma build_items_cases [consumes 1, case_names empty raised stuck again]:
  assumes "build_items reg m b = (b', r)"
  obtains
    (empty) "b_config b = []" "b' = b" "r = None"
  | (raised) s e where "b_config b \<noteq> []"
      "scan reg m (b_config b) (b_config b) (scan_init b) = (s, Some e)"
      "b' = after_scan b s" "r = Some e"
  | (stuck) s where "b_config b \<noteq> []"
      "scan reg m (b_config b) (b_config b) (scan_init b) = (s, None)"
      "configured s = {}" "b' = after_scan b s"
      "r = Some (UnconfiguredItemsException (unconfigured s))"
  | (again) s where "b_config b \<noteq> []"
      "scan reg m (b_config b) (b_config b) (scan_init b) = (s, None)"
      "configured s \<noteq> {}"
      "build_items reg m ((after_scan b s)\<lparr>b_config := dict_del_all (configured s) (b_config b)\<rparr>) = (b', r)"
proof -
  have eq: "build_items reg m b =
     (if b_config b = [] then (b, None)
      else
        (let r = scan reg m (b_config b) (b_config b) (scan_init b);
             b1 = after_scan b (fst r)
         in if snd r \<noteq> None then (b1, snd r)
            else if configured (fst r) \<noteq> {} then
              build_items reg m (b1\<lparr>b_config := dict_del_all (configured (fst r)) (b_config b)\<rparr>)
            else if b_config b \<noteq> [] then
              (b1, Some (UnconfiguredItemsException (unconfigured (fst r))))
            else (b1, None)))"
    by (rule build_items.simps)
  show ?thesis
  proof (cases "b_config b = []")
    case True
    have "build_items reg m b = (b, None)" by (subst eq) (rule if_P[OF True])
    with assms have "b' = b" "r = None" by simp_all
    with True show ?thesis by (intro empty)
  next
    case False
    obtain s r0 where sc: "scan reg m (b_config b) (b_config b) (scan_init b) = (s, r0)"
      by (cases "scan reg m (b_config b) (b_config b) (scan_init b)")
    from False have "build_items reg m b =
        (let r = scan reg m (b_config b) (b_config b) (scan_init b);
             b1 = after_scan b (fst r)
         in if snd r \<noteq> None then (b1, snd r)
            else if configured (fst r) \<noteq> {} then
              build_items reg m (b1\<lparr>b_config := dict_del_all (configured (fst r)) (b_config b)\<rparr>)
            else if b_config b \<noteq> [] then
              (b1, Some (UnconfiguredItemsException (unconfigured (fst r))))
            else (b1, None))"
      by (subst eq) (rule if_not_P)
    then have eq2: "build_items reg m b =
        (if r0 \<noteq> None then (after_scan b s, r0)
            else if configured s \<noteq> {} then
              build_items reg m ((after_scan b s)\<lparr>b_config := dict_del_all (configured s) (b_config b)\<rparr>)
            else (after_scan b s, Some (UnconfiguredItemsException (unconfigured s))))"
      unfolding Let_def sc fst_conv snd_conv if_P[OF False] .
    show ?thesis
    proof (cases r0)
      case (Some e)
      from eq2 Some have "build_items reg m b = (after_scan b s, Some e)" by simp
      with assms have "b' = after_scan b s" "r = Some e" by simp_all
      with False sc Some show ?thesis by (intro raised[of s e]) simp_all
    next
      case None
      show ?thesis
      proof (cases "configured s = {}")
        case True
        from eq2 None True
        have "build_items reg m b = (after_scan b s, Some (UnconfiguredItemsException (unconfigured s)))"
          by simp
        with assms have "b' = after_scan b s" "r = Some (UnconfiguredItemsException (unconfigured s))"
          by simp_all
        with False sc None True show ?thesis by (intro stuck[of s]) simp_all
      next
        case c: False
        from eq2 None c
        have "build_items reg m b =
           build_items reg m ((after_scan b s)\<lparr>b_config := dict_del_all (configured s) (b_config b)\<rparr>)"
          by (simp only: simp_thms if_True if_False)
        with assms have "build_items reg m ((after_scan b s)\<lparr>b_config := dict_del_all (configured s) (b_config b)\<rparr>) = (b', r)"
          by simp
        with False sc None c show ?thesis by (intro again[of s]) simp_all
      qed
    qed
  qed
qed

lemma build_items_induct [consumes 1, case_names empty raised stuck again]:
  assumes run: "build_items reg m b = (b', r)"
    and empty: "\<And>b. b_config b = [] \<Longrightarrow> P b b None"
    and raised: "\<And>b s e. b_config b \<noteq> [] \<Longrightarrow>
        scan reg m (b_config b) (b_config b) (scan_init b) = (s, Some e) \<Longrightarrow>
        P b (after_scan b s) (Some e)"
    and stuck: "\<And>b s. b_config b \<noteq> [] \<Longrightarrow>
        scan reg m (b_config b) (b_config b) (scan_init b) = (s, None) \<Longrightarrow>
        configured s = {} \<Longrightarrow>
        P b (after_scan b s) (Some (UnconfiguredItemsException (unconfigured s)))"
    and again: "\<And>b s b' r. b_config b \<noteq> [] \<Longrightarrow>
        scan reg m (b_config b) (b_config b) (scan_init b) = (s, None) \<Longrightarrow>
        configured s \<noteq> {} \<Longrightarrow> build_items reg m (next_pass b s) = (b', r) \<Longrightarrow>
        P (next_pass b s) b' r \<Longrightarrow> P b b' r"
  shows "P b b' r"
  using run
proof (induction "length (b_config b)" arbitrary: b rule: less_induct)
  case less
  from less.prems show ?case
  proof (cases rule: build_items_cases)
    case empty
    with assms(2) show ?thesis by simp
  next
    case (raised s e)
    with assms(3) show ?thesis by simp
  next
    case (stuck s)
    with assms(4) show ?thesis by simp
  next
    case (again s)
    have "configured s \<subseteq> fst ` set (b_config b)"
      using scan_configured[OF again(2)] by (simp add: scan_init_def)
    with again(3) have "length (b_config (next_pass b s)) < length (b_config b)"
      by (simp add: next_pass_def dict_del_all_shorter)
    from less.hyps[OF this] again(4) have "P (next_pass b s) b' r" by (simp add: next_pass_def)
    with again assms(5)[of b s b' r] show ?thesis by (simp add: next_pass_def)
  qed
qed


lemma build_item_None_cases [consumes 1, case_names built pending]:
  assumes "build_item reg m config (k, v) s = (s', None)"
  obtains
    (built) obj fac where
      "s' = s\<lparr>experiment_dict := dict_set k obj (experiment_dict s),
              factories := dict_set k fac (factories s),
              configured := insert k (configured s)\<rparr>"
  | (pending) ms where "missing_of reg m config (experiment_dict s) v = Some ms"
      "s' = s\<lparr>unconfigured := dict_set k ms (unconfigured s)\<rparr>"
  using assms
proof (cases rule: build_item_cases)
  case (built vd n c params p2k obj)
  then show ?thesis using that(1) by blast
next
  case (pending vd n c params p2k)
  then have "missing_of reg m config (experiment_dict s) v
             = Some {arg \<in> set (tl (args c)). \<not> dict_in arg params}"
    by (simp add: missing_of_def)
  with pending show ?thesis using that(2) by blast
qed simp_all

lemma scan_configured_mono:
  assumes "scan reg m config items s = (s', r)"
  shows "configured s \<subseteq> configured s'"
proof (rule scan_invariant[OF assms, where P = "\<lambda>t. configured s \<subseteq> configured t"])
  show "configured s \<subseteq> configured s" by simp
next
  fix kv s1 s2 r1
  assume "configured s \<subseteq> configured s1" and b: "build_item reg m config kv s1 = (s2, r1)"
  moreover from b have "build_item reg m config (fst kv, snd kv) s1 = (s2, r1)" by simp
  then have "configured s1 \<subseteq> configured s2"
    by (cases rule: build_item_cases) auto
  ultimately show "configured s \<subseteq> configured s2" by blast
qed

lemma scan_experiment_mono:
  assumes "scan reg m config items s = (s', r)"
  shows "keys_of (experiment_dict s) \<subseteq> keys_of (experiment_dict s')"
proof (rule scan_invariant[OF assms, where P = "\<lambda>t. keys_of (experiment_dict s) \<subseteq> keys_of (experiment_dict t)"])
  show "keys_of (experiment_dict s) \<subseteq> keys_of (experiment_dict s)" by simp
next
  fix kv s1 s2 r1
  assume "keys_of (experiment_dict s) \<subseteq> keys_of (experiment_dict s1)"
    and b: "build_item reg m config kv s1 = (s2, r1)"
  moreover from b have "build_item reg m config (fst kv, snd kv) s1 = (s2, r1)" by simp
  then have "keys_of (experiment_dict s1) \<subseteq> keys_of (experiment_dict s2)"
    by (cases rule: build_item_cases) (auto simp: keys_of_def keys_dict_set)
  ultimately show "keys_of (experiment_dict s) \<subseteq> keys_of (experiment_dict s2)" by blast
qed

lemma scan_None_keys:
  assumes "scan reg m config items s = (s', None)"
    and "keys_of (experiment_dict s) = E \<union> configured s"
  shows "keys_of (experiment_dict s') = E \<union> configured s'"
proof (rule scan_invariant_None[OF assms(1), where P = "\<lambda>t. keys_of (experiment_dict t) = E \<union> configured t"])
  show "keys_of (experiment_dict s) = E \<union> configured s" by (rule assms(2))
next
  fix kv s1 s2
  assume p: "keys_of (experiment_dict s1) = E \<union> configured s1"
    and b: "build_item reg m config kv s1 = (s2, None)"
  from b have "build_item reg m config (fst kv, snd kv) s1 = (s2, None)" by simp
  then show "keys_of (experiment_dict s2) = E \<union> configured s2"
    using p by (cases rule: build_item_None_cases) (auto simp: keys_of_def keys_dict_set)
qed


lemma scan_stuck:
  "scan reg m config items s = (s', None) \<Longrightarrow> configured s' = configured s \<Longrightarrow>
   distinct (map fst items) \<Longrightarrow> keys_of items \<inter> keys_of (unconfigured s) = {} \<Longrightarrow>
   keys_of items \<inter> configured s = {} \<Longrightarrow>
     experiment_dict s' = experiment_dict s \<and> factories s' = factories s
     \<and> map (\<lambda>(k, ms). (k, Some ms)) (unconfigured s') =
         map (\<lambda>(k, ms). (k, Some ms)) (unconfigured s)
         @ map (\<lambda>(k, v). (k, missing_of reg m config (experiment_dict s) v)) items"
proof (induction items arbitrary: s)
  case Nil
  then show ?case by simp
next
  case (Cons kv rest)
  obtain k v where kv: "kv = (k, v)" by (cases kv)
  from Cons.prems(1) obtain s1 where b: "build_item reg m config (k, v) s = (s1, None)"
    and sc: "scan reg m config rest s1 = (s', None)"
    unfolding kv by (auto split: prod.splits option.splits)
  from scan_configured_mono[OF sc] build_item_configured[OF b] Cons.prems(2)
  have c1: "configured s1 \<subseteq> configured s" by auto
  from b show ?case
  proof (cases rule: build_item_None_cases)
    case (built obj fac)
    with scan_configured_mono[OF sc] Cons.prems(2) have "k \<in> configured s" by auto
    moreover from Cons.prems(5) kv have "k \<notin> configured s" by (auto simp: keys_of_def)
    ultimately show ?thesis by simp
  next
    case (pending ms)
    then have e1: "experiment_dict s1 = experiment_dict s" "factories s1 = factories s"
      "configured s1 = configured s" by simp_all
    from Cons.prems(4) kv have nin: "\<not> dict_in k (unconfigured s)"
      by (auto simp: keys_of_def dict_in_def)
    with pending have u1: "unconfigured s1 = unconfigured s @ [(k, ms)]"
      by (simp add: dict_set_new)
    from Cons.prems(3,4) kv u1 have d: "distinct (map fst rest)"
      and dj: "keys_of rest \<inter> keys_of (unconfigured s1) = {}"
      by (auto simp: keys_of_def)
    from Cons.prems(5) kv e1 have dc: "keys_of rest \<inter> configured s1 = {}"
      by (auto simp: keys_of_def)
    from Cons.IH[OF sc _ d dj dc] Cons.prems(2) e1
    have "experiment_dict s' = experiment_dict s1 \<and> factories s' = factories s1
     \<and> map (\<lambda>(k, ms). (k, Some ms)) (unconfigured s') =
         map (\<lambda>(k, ms). (k, Some ms)) (unconfigured s1)
         @ map (\<lambda>(k, v). (k, missing_of reg m config (experiment_dict s1) v)) rest"
      by simp
    with e1 u1 pending(1) kv show ?thesis by simp
  qed
qed

lemma dict_del_all_distinct: "distinct (map fst d) \<Longrightarrow> distinct (map fst (dict_del_all ks d))"
  by (simp add: dict_del_all_def distinct_map_filter)

lemma dict_del_all_empty [simp]: "dict_del_all {} d = d"
  by (simp add: dict_del_all_def)

lemma dict_del_all_twice: "dict_del_all ks (dict_del_all ks' d) = dict_del_all (ks \<union> ks') d"
  by (auto simp: dict_del_all_def intro: filter_cong)

lemma full_scan_keys:
  assumes "scan reg m (b_config b) (b_config b) (scan_init b) = (s, None)"
  shows "keys_of (experiment_dict s) = keys_of (b_experiment b) \<union> configured s"
    and "configured s \<subseteq> keys_of (b_config b)"
proof -
  show "keys_of (experiment_dict s) = keys_of (b_experiment b) \<union> configured s"
    by (rule scan_None_keys[OF assms]) (simp add: scan_init_def)
  show "configured s \<subseteq> keys_of (b_config b)"
    using scan_configured[OF assms] by (simp add: scan_init_def keys_of_def)
qed

lemma full_scan_stuck:
  assumes "scan reg m (b_config b) (b_config b) (scan_init b) = (s, None)"
    and "configured s = {}" and "distinct (map fst (b_config b))"
  shows "after_scan b s = b"
    and "map (\<lambda>(k, ms). (k, Some ms)) (unconfigured s) =
           map (\<lambda>(k, v). (k, missing_of reg m (b_config b) (b_experiment b) v)) (b_config b)"
proof -
  have "experiment_dict s = experiment_dict (scan_init b) \<and> factories s = factories (scan_init b)
     \<and> map (\<lambda>(k, ms). (k, Some ms)) (unconfigured s) =
         map (\<lambda>(k, ms). (k, Some ms)) (unconfigured (scan_init b))
         @ map (\<lambda>(k, v). (k, missing_of reg m (b_config b) (experiment_dict (scan_init b)) v)) (b_config b)"
    by (rule scan_stuck[OF assms(1)]) (use assms(2,3) in \<open>simp_all add: scan_init_def keys_of_def\<close>)
  then show "after_scan b s = b"
    and "map (\<lambda>(k, ms). (k, Some ms)) (unconfigured s) =
           map (\<lambda>(k, v). (k, missing_of reg m (b_config b) (b_experiment b) v)) (b_config b)"
    by (simp_all add: scan_init_def after_scan_def)
qed

lemma next_pass_simps [simp]:
  "b_config (next_pass b s) = dict_del_all (configured s) (b_config b)"
  "b_experiment (next_pass b s) = experiment_dict s"
  "b_factories (next_pass b s) = factories s"
  by (simp_all add: next_pass_def after_scan_def)

lemma after_scan_simps [simp]:
  "b_config (after_scan b s) = b_config b"
  "b_experiment (after_scan b s) = experiment_dict s"
  "b_factories (after_scan b s) = factories s"
  by (simp_all add: after_scan_def)

lemma build_items_config:
  assumes "build_items reg m b = (b', r)"
  shows "\<exists>ks. b_config b' = dict_del_all ks (b_config b)"
  using assms
proof (induction rule: build_items_induct)
  case (empty b)
  show ?case by (rule exI[of _ "{}"]) simp
next
  case (raised b s e)
  show ?case by (rule exI[of _ "{}"]) simp
next
  case (stuck b s)
  show ?case by (rule exI[of _ "{}"]) simp
next
  case (again b s b' r)
  then obtain ks where "b_config b' = dict_del_all ks (b_config (next_pass b s))" by blast
  then show ?case by (auto simp: dict_del_all_twice)
qed

lemma build_items_distinct:
  assumes "build_items reg m b = (b', r)" "distinct (map fst (b_config b))"
  shows "distinct (map fst (b_config b'))"
  using build_items_config[OF assms(1)] assms(2) by (auto simp: dict_del_all_distinct)

lemma build_items_exit_simps:
  "b_config b = [] \<Longrightarrow> build_items_exit reg m b = Returned"
  "b_config b \<noteq> [] \<Longrightarrow> scan reg m (b_config b) (b_config b) (scan_init b) = (s, Some e) \<Longrightarrow>
     build_items_exit reg m b = Raised"
  "b_config b \<noteq> [] \<Longrightarrow> scan reg m (b_config b) (b_config b) (scan_init b) = (s, None) \<Longrightarrow>
     configured s = {} \<Longrightarrow> build_items_exit reg m b = Fixpoint"
  "b_config b \<noteq> [] \<Longrightarrow> scan reg m (b_config b) (b_config b) (scan_init b) = (s, None) \<Longrightarrow>
     configured s \<noteq> {} \<Longrightarrow> build_items_exit reg m b = build_items_exit reg m (next_pass b s)"
  by (subst build_items_exit.simps, simp)+

text \<open>
  How a call of \<open>_build_items\<close> ends, by the place where it ends: the state returned is
  the one at the head of the loop, with nothing pending; or the one scanned last, when
  that scan configured nothing, and the exception lists what every pending descriptor
  lacks; or the one a scan was in when one of its steps raised.
\<close>

lemma build_items_outcome:
  assumes "build_items reg m b = (b', r)" and "distinct (map fst (b_config b))"
  shows "(build_items_exit reg m b = Returned \<and> r = None \<and> b_config b' = [])
       \<or> (build_items_exit reg m b = Fixpoint \<and> b_config b' \<noteq> []
            \<and> (\<exists>s. scan reg m (b_config b') (b_config b') (scan_init b') = (s, None)
                  \<and> configured s = {} \<and> r = Some (UnconfiguredItemsException (unconfigured s))
                  \<and> map (\<lambda>(k, ms). (k, Some ms)) (unconfigured s) =
                      map (\<lambda>(k, v). (k, missing_of reg m (b_config b') (b_experiment b') v))
                        (b_config b')))
       \<or> (build_items_exit reg m b = Raised
            \<and> (\<exists>b0 s e. b_config b0 = b_config b' \<and> b_config b0 \<noteq> []
                  \<and> scan reg m (b_config b0) (b_config b0) (scan_init b0) = (s, Some e)
                  \<and> b' = after_scan b0 s \<and> r = Some e))"
  using assms
proof (induction rule: build_items_induct)
  case (empty b)
  then show ?case by (simp add: build_items_exit_simps(1))
next
  case (raised b s e)
  have "\<exists>b0 s' e'. b_config b0 = b_config (after_scan b s) \<and> b_config b0 \<noteq> []
          \<and> scan reg m (b_config b0) (b_config b0) (scan_init b0) = (s', Some e')
          \<and> after_scan b s = after_scan b0 s' \<and> Some e = Some e'"
    using raised(1,2) by (intro exI[of _ b] exI[of _ s] exI[of _ e]) simp
  with build_items_exit_simps(2)[OF raised(1,2)] show ?case by simp
next
  case (stuck b s)
  from full_scan_stuck[OF stuck(2,3,4)] stuck(1,2,3) build_items_exit_simps(3)[OF stuck(1,2,3)]
  show ?case by auto
next
  case (again b s b' r)
  from again(6) have "distinct (map fst (b_config (next_pass b s)))"
    by (simp add: dict_del_all_distinct)
  from again(5)[OF this] build_items_exit_simps(4)[OF again(1,2,3)] show ?case by simp
qed




lemma simple_param_step:
  "keys_of (fst (simple_param env ef kv)) =
     keys_of (fst ef) \<union> (if is_scalar (snd kv) then {fst kv} else {})"
  "distinct (map fst (fst ef)) \<Longrightarrow> distinct (map fst (fst (simple_param env ef kv)))"
  by (auto simp: simple_param_def Let_def keys_of_def keys_dict_set is_scalar_def distinct_dict_set)

lemma simple_list_step:
  "keys_of (fst (simple_list env ef kv)) =
     keys_of (fst ef) \<union> (if \<exists>vs. snd kv = PList vs \<and> list_all is_scalar vs then {fst kv} else {})"
  "distinct (map fst (fst ef)) \<Longrightarrow> distinct (map fst (fst (simple_list env ef kv)))"
proof -
  have sc: "(\<lambda>vv. \<not> is_dict vv \<and> \<not> is_list vv) = is_scalar" by (auto simp: is_scalar_def)
  show "keys_of (fst (simple_list env ef kv)) =
     keys_of (fst ef) \<union> (if \<exists>vs. snd kv = PList vs \<and> list_all is_scalar vs then {fst kv} else {})"
    by (cases "snd kv") (auto simp: simple_list_def Let_def keys_of_def keys_dict_set sc)
  show "distinct (map fst (fst ef)) \<Longrightarrow> distinct (map fst (fst (simple_list env ef kv)))"
    by (cases "snd kv") (auto simp: simple_list_def Let_def distinct_dict_set)
qed

lemma simple_param_keys:
  "keys_of (fst (foldl (simple_param env) ef cfg)) =
     keys_of (fst ef) \<union> {k. \<exists>v. (k, v) \<in> set cfg \<and> is_scalar v}"
proof (induction cfg arbitrary: ef)
  case Nil
  then show ?case by simp
next
  case (Cons kv cfg)
  show ?case
    unfolding foldl_Cons Cons.IH simple_param_step(1) by (cases kv) auto
qed

lemma simple_list_keys:
  "keys_of (fst (foldl (simple_list env) ef cfg)) =
     keys_of (fst ef) \<union> {k. \<exists>vs. (k, PList vs) \<in> set cfg \<and> list_all is_scalar vs}"
proof (induction cfg arbitrary: ef)
  case Nil
  then show ?case by simp
next
  case (Cons kv cfg)
  show ?case
    unfolding foldl_Cons Cons.IH simple_list_step(1) by (cases kv) auto
qed



lemma is_simple_iff:
  "is_simple v \<longleftrightarrow> is_scalar v \<or> (\<exists>vs. v = PList vs \<and> list_all is_scalar vs)"
  by (cases v) (auto simp: is_simple_def is_scalar_def)

lemma classify_experiment:
  "b_experiment (classify env cfg) =
     fst (foldl (simple_list env) (foldl (simple_param env) ([], []) cfg) cfg)"
  by (simp add: classify_def Let_def)

lemma classify_keys:
  "keys_of (b_experiment (classify env cfg)) = {k. \<exists>v. (k, v) \<in> set cfg \<and> is_simple v}"
  unfolding classify_experiment simple_list_keys simple_param_keys
  by (auto simp: is_simple_iff keys_of_def)

lemma classify_config:
  "b_config (classify env cfg) = dict_del_all (keys_of (b_experiment (classify env cfg))) cfg"
  by (simp add: classify_def Let_def keys_of_def)



lemma classify_pending:
  assumes "distinct (map fst cfg)" "(k, v) \<in> set cfg" "\<not> is_simple v"
  shows "(k, v) \<in> set (b_config (classify env cfg))"
proof -
  have "k \<notin> keys_of (b_experiment (classify env cfg))"
  proof
    assume "k \<in> keys_of (b_experiment (classify env cfg))"
    then obtain v' where v': "(k, v') \<in> set cfg" "is_simple v'" unfolding classify_keys by blast
    from assms(1,2) v'(1) have "v' = v" by (meson eq_key_imp_eq_value)
    with v'(2) assms(3) show False by simp
  qed
  with assms(2) show ?thesis
    unfolding classify_config[of env cfg] by (simp add: dict_del_all_def)
qed

lemma malformed_not_simple: "malformed v \<Longrightarrow> \<not> is_simple v"
  by (auto simp: malformed_def is_simple_def split: pval.splits)

lemma build_item_malformed:
  "malformed v \<Longrightarrow>
   build_item reg m config (k, v) s =
     (s, Some (ValueError (if is_dict v then NoNameProperty k else NotADict k)))"
  by (cases v) (auto simp: malformed_def build_item_def)

lemma scan_append:
  "scan reg m config (pre @ post) s =
     (case scan reg m config pre s of
        (s1, Some e) \<Rightarrow> (s1, Some e)
      | (s1, None) \<Rightarrow> scan reg m config post s1)"
  by (induction pre arbitrary: s) (auto split: prod.splits option.splits)

lemma scan_malformed:
  assumes "(k, v) \<in> set items" "malformed v"
  shows "\<exists>s' e. scan reg m config items s = (s', Some e)"
  using assms(1)
proof (induction items arbitrary: s)
  case Nil
  then show ?case by simp
next
  case (Cons kv rest)
  obtain s1 r1 where b: "build_item reg m config kv s = (s1, r1)"
    by (cases "build_item reg m config kv s")
  show ?case
  proof (cases r1)
    case (Some e)
    with b show ?thesis by simp
  next
    case None
    with b build_item_malformed[OF assms(2), of reg m config k s] have "kv \<noteq> (k, v)" by auto
    with Cons.prems have "(k, v) \<in> set rest" by simp
    from Cons.IH[OF this, of s1] b None show ?thesis by simp
  qed
qed

subsection \<open>The three tiers\<close>

lemma init_cases [consumes 1, case_names tier0 tier1 tier2]:
  assumes "ExperimentConfig_init reg experiment env = (b', r)"
  obtains
    (tier0) "build_items reg 0 (classify env experiment) = (b', r)" "\<not> passes r"
  | (tier1) b1 r0 where "build_items reg 0 (classify env experiment) = (b1, r0)" "passes r0"
      "build_items reg 1 b1 = (b', r)" "\<not> passes r"
  | (tier2) b1 r0 b2 r1 where "build_items reg 0 (classify env experiment) = (b1, r0)" "passes r0"
      "build_items reg 1 b1 = (b2, r1)" "passes r1" "build_items reg 2 b2 = (b', r)"
proof -
  obtain b1 r0 where t0: "build_items reg 0 (classify env experiment) = (b1, r0)"
    by (cases "build_items reg 0 (classify env experiment)")
  obtain b2 r1 where t1: "build_items reg 1 b1 = (b2, r1)" by (cases "build_items reg 1 b1")
  show ?thesis
  proof (cases "passes r0")
    case False
    with assms t0 tier0 show ?thesis by (simp add: ExperimentConfig_init_def Let_def)
  next
    case p0: True
    show ?thesis
    proof (cases "passes r1")
      case False
      with assms t0 t1 p0 tier1[of b1 r0] show ?thesis
        by (simp add: ExperimentConfig_init_def Let_def)
    next
      case True
      with assms t0 t1 p0 tier2[of b1 r0 b2 r1] show ?thesis
        by (simp add: ExperimentConfig_init_def Let_def)
    qed
  qed
qed

lemma classify_config_distinct:
  "distinct (map fst cfg) \<Longrightarrow> distinct (map fst (b_config (classify env cfg)))"
  unfolding classify_config[of env cfg] by (rule dict_del_all_distinct)



section \<open>C4: the fixpoint loop of one tier\<close>

text \<open>
  C4, amended. While descriptors are pending, \<open>_build_items\<close> performs full scans. A
  scan that returns and has constructed at least one descriptor deletes the constructed
  keys, which makes the pending dictionary strictly shorter, and the function goes on with
  what is left. A scan that returns and has constructed none raises
  \<open>UnconfiguredItemsException\<close> with, for every pending key in order, the set of the
  parameter names left unfilled. So the function always terminates, in one of three ways,
  told apart by the place where it ends: it returns with an empty pending dictionary; or
  line 274 raises that exception for the pending dictionary it leaves; or a step of a
  scan over the pending dictionary it leaves raised (a malformed or unregistered
  descriptor, a type error, whatever a constructor raises), which is not caught.
\<close>

theorem C4_scans_repeat_until_fixpoint:
  assumes "distinct (map fst (b_config b))"
  shows "(\<forall>s. b_config b \<noteq> []
             \<and> scan reg m (b_config b) (b_config b) (scan_init b) = (s, None)
             \<and> configured s \<noteq> {} \<longrightarrow>
            build_items reg m b = build_items reg m (next_pass b s)
            \<and> length (b_config (next_pass b s)) < length (b_config b))
       \<and> (\<forall>s. b_config b \<noteq> []
             \<and> scan reg m (b_config b) (b_config b) (scan_init b) = (s, None)
             \<and> configured s = {} \<longrightarrow>
            build_items reg m b = (b, Some (UnconfiguredItemsException (unconfigured s)))
            \<and> map (\<lambda>(k, ms). (k, Some ms)) (unconfigured s) =
                map (\<lambda>(k, v). (k, missing_of reg m (b_config b) (b_experiment b) v)) (b_config b))
       \<and> (\<forall>b' r. build_items reg m b = (b', r) \<longrightarrow>
            (build_items_exit reg m b = Returned \<and> r = None \<and> b_config b' = [])
          \<or> (build_items_exit reg m b = Fixpoint \<and> b_config b' \<noteq> []
               \<and> (\<exists>s. scan reg m (b_config b') (b_config b') (scan_init b') = (s, None)
                     \<and> configured s = {} \<and> r = Some (UnconfiguredItemsException (unconfigured s))
                     \<and> map (\<lambda>(k, ms). (k, Some ms)) (unconfigured s) =
                         map (\<lambda>(k, v). (k, missing_of reg m (b_config b') (b_experiment b') v))
                           (b_config b')))
          \<or> (build_items_exit reg m b = Raised
               \<and> (\<exists>b0 s e. b_config b0 = b_config b' \<and> b_config b0 \<noteq> []
                     \<and> scan reg m (b_config b0) (b_config b0) (scan_init b0) = (s, Some e)
                     \<and> b' = after_scan b0 s \<and> r = Some e)))"
proof (intro conjI allI impI)
  fix s
  assume a: "b_config b \<noteq> []
             \<and> scan reg m (b_config b) (b_config b) (scan_init b) = (s, None)
             \<and> configured s \<noteq> {}"
  obtain b' r where run: "build_items reg m b = (b', r)" by (cases "build_items reg m b")
  from run show "build_items reg m b = build_items reg m (next_pass b s)"
  proof (cases rule: build_items_cases)
    case (again s')
    with a have "s' = s" by simp
    with again(4) run show ?thesis by (simp add: next_pass_def)
  qed (use a in auto)
  from full_scan_keys(2)[of reg m b s] a
  show "length (b_config (next_pass b s)) < length (b_config b)"
    by (simp add: dict_del_all_shorter keys_of_def)
next
  fix s
  assume a: "b_config b \<noteq> []
             \<and> scan reg m (b_config b) (b_config b) (scan_init b) = (s, None)
             \<and> configured s = {}"
  then have sc: "scan reg m (b_config b) (b_config b) (scan_init b) = (s, None)"
    and c: "configured s = {}" by simp_all
  obtain b' r where run: "build_items reg m b = (b', r)" by (cases "build_items reg m b")
  from run show "build_items reg m b = (b, Some (UnconfiguredItemsException (unconfigured s)))"
  proof (cases rule: build_items_cases)
    case (stuck s')
    with a have "s' = s" by simp
    with stuck run full_scan_stuck(1)[OF sc c assms] show ?thesis by simp
  qed (use a in auto)
  from full_scan_stuck(2)[OF sc c assms]
  show "map (\<lambda>(k, ms). (k, Some ms)) (unconfigured s) =
          map (\<lambda>(k, v). (k, missing_of reg m (b_config b) (b_experiment b) v)) (b_config b)" .
next
  fix b' r
  assume "build_items reg m b = (b', r)"
  from build_items_outcome[OF this assms]
  show "(build_items_exit reg m b = Returned \<and> r = None \<and> b_config b' = [])
          \<or> (build_items_exit reg m b = Fixpoint \<and> b_config b' \<noteq> []
               \<and> (\<exists>s. scan reg m (b_config b') (b_config b') (scan_init b') = (s, None)
                     \<and> configured s = {} \<and> r = Some (UnconfiguredItemsException (unconfigured s))
                     \<and> map (\<lambda>(k, ms). (k, Some ms)) (unconfigured s) =
                         map (\<lambda>(k, v). (k, missing_of reg m (b_config b') (b_experiment b') v))
                           (b_config b')))
          \<or> (build_items_exit reg m b = Raised
               \<and> (\<exists>b0 s e. b_config b0 = b_config b' \<and> b_config b0 \<noteq> []
                     \<and> scan reg m (b_config b0) (b_config b0) (scan_init b0) = (s, Some e)
                     \<and> b' = after_scan b0 s \<and> r = Some e))" .
qed

theorem C4_witness:
  "distinct (map fst [(''b'', PDict [(''_name'', PStr ''Box''), (''value'', PStr ''a'')]),
                      (''a'', PDict [(''_name'', PStr ''Box''), (''value_'', PInt 5)])])
   \<and> build_items example_registry 0
        \<lparr>b_config = [(''b'', PDict [(''_name'', PStr ''Box''), (''value'', PStr ''a'')]),
                     (''a'', PDict [(''_name'', PStr ''Box''), (''value_'', PInt 5)])],
         b_experiment = [], b_factories = []\<rparr>
      = build_items example_registry 0
        \<lparr>b_config = [(''b'', PDict [(''_name'', PStr ''Box''), (''value'', PStr ''a'')])],
         b_experiment = [(''a'', PObj ''Box'' [(''value'', PInt 5)])],
         b_factories = [(''a'', PluginFactory ''Box'' (Some [(''value'', PNone)]) []
                                 [(''value'', PInt 5)])]\<rparr>
   \<and> b_config (fst (build_items example_registry 0
        \<lparr>b_config = [(''b'', PDict [(''_name'', PStr ''Box''), (''value'', PStr ''a'')]),
                     (''a'', PDict [(''_name'', PStr ''Box''), (''value_'', PInt 5)])],
         b_experiment = [], b_factories = []\<rparr>)) = []
   \<and> build_items example_registry 0
        \<lparr>b_config = [(''b'', PDict [(''_name'', PStr ''Box''), (''value'', PStr ''zz'')])],
         b_experiment = [], b_factories = []\<rparr>
      = (\<lparr>b_config = [(''b'', PDict [(''_name'', PStr ''Box''), (''value'', PStr ''zz'')])],
          b_experiment = [], b_factories = []\<rparr>,
         Some (UnconfiguredItemsException [(''b'', {''value''})]))"
proof -
  let ?b = "\<lparr>b_config = [(''b'', PDict [(''_name'', PStr ''Box''), (''value'', PStr ''a'')]),
                     (''a'', PDict [(''_name'', PStr ''Box''), (''value_'', PInt 5)])],
         b_experiment = [], b_factories = []\<rparr>"
  let ?s = "\<lparr>experiment_dict = [(''a'', PObj ''Box'' [(''value'', PInt 5)])],
             factories = [(''a'', PluginFactory ''Box'' (Some [(''value'', PNone)]) []
                                 [(''value'', PInt 5)])],
             configured = {''a''}, unconfigured = [(''b'', {''value''})]\<rparr>"
  let ?c = "\<lparr>b_config = [(''b'', PDict [(''_name'', PStr ''Box''), (''value'', PStr ''zz'')])],
         b_experiment = [], b_factories = []\<rparr>"
  let ?t = "\<lparr>experiment_dict = [], factories = [], configured = {},
             unconfigured = [(''b'', {''value''})]\<rparr>"
  have d: "distinct (map fst (b_config ?b))" by simp
  have sc: "scan example_registry 0 (b_config ?b) (b_config ?b) (scan_init ?b) = (?s, None)"
    by code_simp
  have np: "next_pass ?b ?s =
      \<lparr>b_config = [(''b'', PDict [(''_name'', PStr ''Box''), (''value'', PStr ''a'')])],
         b_experiment = [(''a'', PObj ''Box'' [(''value'', PInt 5)])],
         b_factories = [(''a'', PluginFactory ''Box'' (Some [(''value'', PNone)]) []
                                 [(''value'', PInt 5)])]\<rparr>"
    by code_simp
  have fin: "b_config (fst (build_items example_registry 0 ?b)) = []" by code_simp
  have d2: "distinct (map fst (b_config ?c))" by simp
  have sc2: "scan example_registry 0 (b_config ?c) (b_config ?c) (scan_init ?c) = (?t, None)"
    by code_simp
  from C4_scans_repeat_until_fixpoint[OF d, of example_registry 0] sc
  have w1: "build_items example_registry 0 ?b = build_items example_registry 0 (next_pass ?b ?s)"
    by simp
  from C4_scans_repeat_until_fixpoint[OF d2, of example_registry 0] sc2
  have w2: "build_items example_registry 0 ?c =
              (?c, Some (UnconfiguredItemsException [(''b'', {''value''})]))"
    by simp
  from w1 w2 np fin show ?thesis by simp
qed

text \<open>
  C4 as stated fails: a descriptor of an unregistered type ends \<open>_build_items\<close> with a
  \<open>ValueError\<close>, the pending dictionary not empty.
\<close>

theorem C4_counterexample:
  "build_items example_registry 0
     \<lparr>b_config = [(''x'', PDict [(''_name'', PStr ''Nope'')])], b_experiment = [], b_factories = []\<rparr>
   = (\<lparr>b_config = [(''x'', PDict [(''_name'', PStr ''Nope'')])], b_experiment = [],
        b_factories = []\<rparr>,
      Some (ValueError (NotRegistered ''x'' (PStr ''Nope''))))
   \<and> build_items_exit example_registry 0
     \<lparr>b_config = [(''x'', PDict [(''_name'', PStr ''Nope'')])], b_experiment = [], b_factories = []\<rparr>
   = Raised"
  by code_simp

section \<open>C5: the exception of the tiers\<close>

text \<open>
  What the handlers of lines 159, 165 and 171 are written for: when tiers 0 and 1 return
  or raise \<open>UnconfiguredItemsException\<close>, the outcome of \<open>__init__\<close> is the outcome of
  tier 2, and when tier 2 ends at line 274 its exception lists every key still pending,
  in order, each with the set of its constructor parameters left unfilled in tier 2.
\<close>

lemma tier_2_fixpoint_report:
  assumes "distinct (map fst experiment)"
    and "build_items reg 0 (classify env experiment) = (b1, r0)" and "passes r0"
    and "build_items reg 1 b1 = (b2, r1)" and "passes r1"
    and "build_items_exit reg 2 b2 = Fixpoint"
    and "ExperimentConfig_init reg experiment env = (b', r)"
  shows "\<exists>items. r = Some (UnconfiguredItemsException items) \<and> b_config b' \<noteq> []
           \<and> map (\<lambda>(k, ms). (k, Some ms)) items =
               map (\<lambda>(k, v). (k, missing_of reg 2 (b_config b') (b_experiment b') v)) (b_config b')"
proof -
  from assms(2-5,7) have t2: "build_items reg 2 b2 = (b', r)"
    by (simp add: ExperimentConfig_init_def Let_def)
  from build_items_distinct[OF assms(2) classify_config_distinct[OF assms(1)]]
  have "distinct (map fst (b_config b1))" .
  from build_items_distinct[OF assms(4) this] have d2: "distinct (map fst (b_config b2))" .
  from build_items_outcome[OF t2 d2] assms(6) show ?thesis by auto
qed

text \<open>
  C5 fails on the code. The handlers catch by class, so the
  \<open>UnconfiguredItemsException\<close> that the constructor of a descriptor raises at line 263
  is taken for the one of line 274. With \<open>n\<close> a \<open>Nested\<close> descriptor that is ready and
  \<open>b\<close> a descriptor waiting for a key that does not exist, the first scan of every tier
  ends in the constructor of \<open>n\<close>; tiers 0 and 1 are passed over although a constructor
  failed, and the exception that leaves \<open>__init__\<close> after tier 2 is the constructor's:
  its items name \<open>inner\<close>, and neither of the keys \<open>n\<close> and \<open>b\<close> that are still
  pending, whose missing parameters (\<open>value\<close> for \<open>b\<close>) are not reported.
\<close>

theorem C5_constructor_exception_taken_for_the_report:
  "build_items nested_registry 0
     (classify [] [(''n'', PDict [(''_name'', PStr ''Nested''), (''value_'', PInt 1)]),
                   (''b'', PDict [(''_name'', PStr ''Box''), (''value'', PStr ''zz'')])])
     = (\<lparr>b_config = [(''n'', PDict [(''_name'', PStr ''Nested''), (''value_'', PInt 1)]),
                     (''b'', PDict [(''_name'', PStr ''Box''), (''value'', PStr ''zz'')])],
         b_experiment = [], b_factories = []\<rparr>,
        Some (UnconfiguredItemsException [(''inner'', {''x''})]))
   \<and> build_items_exit nested_registry 0
     (classify [] [(''n'', PDict [(''_name'', PStr ''Nested''), (''value_'', PInt 1)]),
                   (''b'', PDict [(''_name'', PStr ''Box''), (''value'', PStr ''zz'')])])
     = Raised
   \<and> passes (Some (UnconfiguredItemsException [(''inner'', {''x''})]))
   \<and> ExperimentConfig_init nested_registry
        [(''n'', PDict [(''_name'', PStr ''Nested''), (''value_'', PInt 1)]),
         (''b'', PDict [(''_name'', PStr ''Box''), (''value'', PStr ''zz'')])] []
     = (\<lparr>b_config = [(''n'', PDict [(''_name'', PStr ''Nested''), (''value_'', PInt 1)]),
                     (''b'', PDict [(''_name'', PStr ''Box''), (''value'', PStr ''zz'')])],
         b_experiment = [], b_factories = []\<rparr>,
        Some (UnconfiguredItemsException [(''inner'', {''x''})]))
   \<and> build_items_exit nested_registry 2
        \<lparr>b_config = [(''n'', PDict [(''_name'', PStr ''Nested''), (''value_'', PInt 1)]),
                     (''b'', PDict [(''_name'', PStr ''Box''), (''value'', PStr ''zz'')])],
         b_experiment = [], b_factories = []\<rparr>
     = Raised
   \<and> map fst [(''inner'', {''x''})]
       \<noteq> map fst [(''n'', PDict [(''_name'', PStr ''Nested''), (''value_'', PInt 1)]),
                   (''b'', PDict [(''_name'', PStr ''Box''), (''value'', PStr ''zz'')])]
   \<and> missing_of nested_registry 2
        [(''n'', PDict [(''_name'', PStr ''Nested''), (''value_'', PInt 1)]),
         (''b'', PDict [(''_name'', PStr ''Box''), (''value'', PStr ''zz'')])] []
        (PDict [(''_name'', PStr ''Box''), (''value'', PStr ''zz'')])
     = Some {''value''}"
  by code_simp

section \<open>C8: malformed entries\<close>

lemma build_items_malformed:
  assumes "(k, v) \<in> set (b_config b)" and "malformed v" and "build_items reg m b = (b', r)"
  shows "\<exists>s e. scan reg m (b_config b) (b_config b) (scan_init b) = (s, Some e)
           \<and> b' = after_scan b s \<and> r = Some e"
    and "build_items_exit reg m b = Raised"
proof -
  from assms(1) have ne: "b_config b \<noteq> []" by auto
  from scan_malformed[OF assms(1,2)] obtain s e where
    sc: "scan reg m (b_config b) (b_config b) (scan_init b) = (s, Some e)" by blast
  from assms(3) have "b' = after_scan b s \<and> r = Some e"
    by (cases rule: build_items_cases) (use ne sc in auto)
  with sc show "\<exists>s e. scan reg m (b_config b) (b_config b) (scan_init b) = (s, Some e)
           \<and> b' = after_scan b s \<and> r = Some e" by blast
  from build_items_exit_simps(2)[OF ne sc] show "build_items_exit reg m b = Raised" .
qed

text \<open>
  C8, amended. A top-level mapping without \<open>_name\<close>, or a top-level list with an
  element that is not a scalar, is not touched by the classification loops, which raise
  nothing: it stays in \<open>config\<close>. The first scan of tier 0 then raises, so tier 0 ends
  inside its first scan, and \<open>__init__\<close> ends with an exception and the entry still
  pending. The exception is the \<open>ValueError\<close> of the malformed entry, raised by that
  first scan, when the descriptors declared before the entry are scanned without an
  exception; they are resolved, and constructed when ready, before the error surfaces.
  An earlier descriptor that raises comes first.
\<close>

theorem C8_malformed_entry_raises_in_first_scan:
  assumes "distinct (map fst experiment)" and "(k, v) \<in> set experiment" and "malformed v"
  shows "(k, v) \<in> set (b_config (classify env experiment))
       \<and> (\<exists>s e. scan reg 0 (b_config (classify env experiment)) (b_config (classify env experiment))
                   (scan_init (classify env experiment)) = (s, Some e)
                \<and> build_items reg 0 (classify env experiment)
                    = (after_scan (classify env experiment) s, Some e))
       \<and> build_items_exit reg 0 (classify env experiment) = Raised
       \<and> (\<exists>b' e. ExperimentConfig_init reg experiment env = (b', Some e)
                \<and> (k, v) \<in> set (b_config b'))
       \<and> (\<forall>pre post s1.
             b_config (classify env experiment) = pre @ (k, v) # post
             \<and> scan reg 0 (b_config (classify env experiment)) pre
                   (scan_init (classify env experiment)) = (s1, None) \<longrightarrow>
             ExperimentConfig_init reg experiment env
               = (after_scan (classify env experiment) s1,
                  Some (ValueError (if is_dict v then NoNameProperty k else NotADict k))))"
proof -
  let ?b = "classify env experiment"
  from classify_pending[OF assms(1,2) malformed_not_simple[OF assms(3)]]
  have pend: "(k, v) \<in> set (b_config ?b)" .
  then have ne: "b_config ?b \<noteq> []" by auto
  obtain b1 r0 where t0: "build_items reg 0 ?b = (b1, r0)" by (cases "build_items reg 0 ?b")
  from build_items_malformed(1)[OF pend assms(3) t0] obtain s e where
    sc: "scan reg 0 (b_config ?b) (b_config ?b) (scan_init ?b) = (s, Some e)"
    and r0: "b1 = after_scan ?b s" "r0 = Some e" by blast
  from t0 r0 have first: "build_items reg 0 ?b = (after_scan ?b s, Some e)" by simp
  note ex = build_items_malformed(2)[OF pend assms(3) t0]
  have keep: "\<exists>e. r = Some e \<and> (k, v) \<in> set (b_config b')"
    if p: "(k, v) \<in> set (b_config b)" and run: "build_items reg m b = (b', r)" for m b b' r
    using build_items_malformed(1)[OF p assms(3) run] p by auto
  obtain b' r where run: "ExperimentConfig_init reg experiment env = (b', r)"
    by (cases "ExperimentConfig_init reg experiment env")
  from run have fails: "\<exists>e. r = Some e \<and> (k, v) \<in> set (b_config b')"
  proof (cases rule: init_cases)
    case tier0
    from keep[OF pend tier0(1)] show ?thesis .
  next
    case (tier1 b1 r0)
    from keep[OF pend tier1(1)] have "(k, v) \<in> set (b_config b1)" by blast
    from keep[OF this tier1(3)] show ?thesis .
  next
    case (tier2 b1 r0 b2 r1)
    from keep[OF pend tier2(1)] have "(k, v) \<in> set (b_config b1)" by blast
    from keep[OF this tier2(3)] have "(k, v) \<in> set (b_config b2)" by blast
    from keep[OF this tier2(5)] show ?thesis .
  qed
  with run have fin: "\<exists>b' e. ExperimentConfig_init reg experiment env = (b', Some e)
                \<and> (k, v) \<in> set (b_config b')" by blast
  have third: "ExperimentConfig_init reg experiment env
               = (after_scan ?b s1, Some (ValueError (if is_dict v then NoNameProperty k else NotADict k)))"
    if a: "b_config ?b = pre @ (k, v) # post
             \<and> scan reg 0 (b_config ?b) pre (scan_init ?b) = (s1, None)" for pre post s1
  proof -
    from a have e: "b_config ?b = pre @ (k, v) # post" by (rule conjunct1)
    from a have p: "scan reg 0 (b_config ?b) pre (scan_init ?b) = (s1, None)" by (rule conjunct2)
    have step: "scan reg 0 (b_config ?b) (pre @ (k, v) # post) (scan_init ?b)
        = (s1, Some (ValueError (if is_dict v then NoNameProperty k else NotADict k)))"
      unfolding scan_append p
      using build_item_malformed[OF assms(3), of reg 0 "b_config ?b" k s1] by simp
    have sc1: "scan reg 0 (b_config ?b) (b_config ?b) (scan_init ?b)
        = (s1, Some (ValueError (if is_dict v then NoNameProperty k else NotADict k)))"
      using step by (simp only: e[symmetric])
    obtain b1 r0 where bi: "build_items reg 0 ?b = (b1, r0)" by (cases "build_items reg 0 ?b")
    from bi have "b1 = after_scan ?b s1
        \<and> r0 = Some (ValueError (if is_dict v then NoNameProperty k else NotADict k))"
      by (cases rule: build_items_cases) (use ne sc1 in auto)
    with bi show ?thesis by (simp add: ExperimentConfig_init_def Let_def)
  qed
  from pend sc first ex fin third show ?thesis by blast
qed

theorem C8_witness:
  "distinct (map fst [(''a'', PDict [(''_name'', PStr ''Box''), (''value_'', PInt 1)]),
                      (''b'', PDict [(''value'', PStr ''a'')])])
   \<and> malformed (PDict [(''value'', PStr ''a'')])
   \<and> classify [] [(''a'', PDict [(''_name'', PStr ''Box''), (''value_'', PInt 1)]),
                    (''b'', PDict [(''value'', PStr ''a'')])]
      = \<lparr>b_config = [(''a'', PDict [(''_name'', PStr ''Box''), (''value_'', PInt 1)]),
                     (''b'', PDict [(''value'', PStr ''a'')])],
         b_experiment = [], b_factories = []\<rparr>
   \<and> snd (ExperimentConfig_init example_registry
        [(''a'', PDict [(''_name'', PStr ''Box''), (''value_'', PInt 1)]),
         (''b'', PDict [(''value'', PStr ''a'')])] [])
      = Some (ValueError (NoNameProperty ''b''))"
proof -
  let ?cfg = "[(''a'', PDict [(''_name'', PStr ''Box''), (''value_'', PInt 1)]),
                      (''b'', PDict [(''value'', PStr ''a'')])]"
  have d: "distinct (map fst ?cfg)" by simp
  have m: "(''b'', PDict [(''value'', PStr ''a'')]) \<in> set ?cfg" by simp
  have mal: "malformed (PDict [(''value'', PStr ''a'')])" by (simp add: malformed_def)
  have cl: "classify [] ?cfg = \<lparr>b_config = ?cfg, b_experiment = [], b_factories = []\<rparr>"
    by code_simp
  have pre: "b_config (classify [] ?cfg)
       = [(''a'', PDict [(''_name'', PStr ''Box''), (''value_'', PInt 1)])]
         @ (''b'', PDict [(''value'', PStr ''a'')]) # []"
    unfolding cl by simp
  have sc: "scan example_registry 0 (b_config (classify [] ?cfg))
        [(''a'', PDict [(''_name'', PStr ''Box''), (''value_'', PInt 1)])] (scan_init (classify [] ?cfg))
      = (\<lparr>experiment_dict = [(''a'', PObj ''Box'' [(''value'', PInt 1)])],
           factories = [(''a'', PluginFactory ''Box'' (Some [(''value'', PNone)]) [] [(''value'', PInt 1)])],
           configured = {''a''}, unconfigured = []\<rparr>, None)"
    by code_simp
  note t = C8_malformed_entry_raises_in_first_scan[OF d m mal, of "[]" example_registry,
      THEN conjunct2, THEN conjunct2, THEN conjunct2, THEN conjunct2, rule_format,
      OF conjI[OF pre sc]]
  then have "snd (ExperimentConfig_init example_registry ?cfg []) = Some (ValueError (NoNameProperty ''b''))"
    by simp
  with d mal cl show ?thesis by simp
qed

text \<open>
  C8 as stated fails: classification returns with the malformed entry \<open>b\<close> pending, and
  when \<open>__init__\<close> raises for \<open>b\<close> the descriptor \<open>a\<close> declared before it has been
  constructed; with an unregistered type before it, the error raised is not the one of
  the malformed entry.
\<close>

theorem C8_counterexample:
  "classify [] [(''a'', PDict [(''_name'', PStr ''Box''), (''value_'', PInt 1)]),
                (''b'', PDict [(''value'', PStr ''a'')])]
     = \<lparr>b_config = [(''a'', PDict [(''_name'', PStr ''Box''), (''value_'', PInt 1)]),
                    (''b'', PDict [(''value'', PStr ''a'')])],
        b_experiment = [], b_factories = []\<rparr>
   \<and> ExperimentConfig_init example_registry
        [(''a'', PDict [(''_name'', PStr ''Box''), (''value_'', PInt 1)]),
         (''b'', PDict [(''value'', PStr ''a'')])] []
     = (\<lparr>b_config = [(''a'', PDict [(''_name'', PStr ''Box''), (''value_'', PInt 1)]),
                     (''b'', PDict [(''value'', PStr ''a'')])],
         b_experiment = [(''a'', PObj ''Box'' [(''value'', PInt 1)])],
         b_factories = [(''a'', PluginFactory ''Box'' (Some [(''value'', PNone)]) []
                                  [(''value'', PInt 1)])]\<rparr>,
        Some (ValueError (NoNameProperty ''b'')))
   \<and> snd (ExperimentConfig_init example_registry
        [(''a'', PDict [(''_name'', PStr ''Nope'')]),
         (''b'', PDict [(''value'', PStr ''a'')])] [])
     = Some (ValueError (NotRegistered ''a'' (PStr ''Nope'')))"
  by code_simp

section \<open>C9: resolved and pending keys\<close>







section \<open>C1: defaults and pending keys\<close>

lemma param_source_default:
  assumes "literal_of v p = None" "map_of (named_params_of v) p = None"
    and "map_of (default_params_of c) p = Some d" "\<not> dict_in p experiment"
  shows "param_source m config experiment c v p =
           (if default_applies m config p then Some d else None)"
  using assms by (simp add: param_source_def arg_source_def dict_in_map_of)

lemma build_item_experiment_mono:
  assumes "build_item reg m config kv s1 = (s2, r1)"
  shows "keys_of (experiment_dict s1) \<subseteq> keys_of (experiment_dict s2)"
proof -
  from assms have "build_item reg m config (fst kv, snd kv) s1 = (s2, r1)" by simp
  then show ?thesis
    by (cases rule: build_item_cases) (auto simp: keys_of_def keys_dict_set)
qed

lemma dict_in_keys_of: "dict_in k d \<longleftrightarrow> k \<in> keys_of d"
  by (simp add: dict_in_def keys_of_def)

lemma scan_default_waits:
  assumes sc: "scan reg m config items s0 = (s, r)" and m: "m < 2"
    and items: "set items \<subseteq> set config" and dc: "distinct (map fst config)"
    and kv: "(k, PDict v) \<in> set config" and n: "map_of v ''_name'' = Some (PStr n)"
    and c: "reg n = Some c" and dv: "distinct (map fst v)"
    and p: "p \<in> set (tl (args c))" and d: "map_of (default_params_of c) p = Some d"
    and nl: "literal_of v p = None" and na: "map_of (named_params_of v) p = None"
    and ne: "p \<noteq> ''experiment_config''" and pc: "dict_in p config"
    and k0: "\<not> dict_in p (experiment_dict s0) \<longrightarrow> \<not> dict_in k (experiment_dict s0)"
  shows "\<not> dict_in p (experiment_dict s) \<longrightarrow> \<not> dict_in k (experiment_dict s)"
proof (rule scan_invariant[OF sc, where P = "\<lambda>t. \<not> dict_in p (experiment_dict t) \<longrightarrow> \<not> dict_in k (experiment_dict t)"])
  show "\<not> dict_in p (experiment_dict s0) \<longrightarrow> \<not> dict_in k (experiment_dict s0)" by (rule k0)
next
  fix kv' s1 s2 r1
  assume mem: "kv' \<in> set items"
    and P1: "\<not> dict_in p (experiment_dict s1) \<longrightarrow> \<not> dict_in k (experiment_dict s1)"
    and b: "build_item reg m config kv' s1 = (s2, r1)"
  show "\<not> dict_in p (experiment_dict s2) \<longrightarrow> \<not> dict_in k (experiment_dict s2)"
  proof
    assume np2: "\<not> dict_in p (experiment_dict s2)"
    with build_item_experiment_mono[OF b] have np1: "\<not> dict_in p (experiment_dict s1)"
      by (auto simp: dict_in_keys_of)
    with P1 have nk1: "\<not> dict_in k (experiment_dict s1)" by simp
    have src: "self_or p (param_source m config (experiment_dict s1) c v p) = None"
      using param_source_default[OF nl na d np1, of m config] m pc ne
      by (simp add: default_applies_def self_or_def)
    have notready: "int (length params) \<noteq> int (length (args c)) - 1"
      if "resolve_params m config (experiment_dict s1) c v = Inr (params, p2k)" for params p2k
      using resolve_params_ready[OF that dv] p src by blast
    obtain k' v' where kv': "kv' = (k', v')" by (cases kv')
    have same: "v' = PDict v" if "k' = k"
      using that mem items kv kv' dc by (auto dest: eq_key_imp_eq_value)
    from b[unfolded kv'] show "\<not> dict_in k (experiment_dict s2)"
    proof (cases rule: build_item_cases)
      case (raised e)
      with nk1 show ?thesis by simp
    next
      case (clash vd n' c' params p2k obj)
      have "k' \<noteq> k"
      proof
        assume "k' = k"
        with same clash n c notready show False by auto
      qed
      with clash nk1 show ?thesis by simp
    next
      case (built vd n' c' params p2k obj)
      have "k' \<noteq> k"
      proof
        assume "k' = k"
        with same built n c notready show False by auto
      qed
      with built nk1 show ?thesis by simp
    next
      case (pending vd n' c' params p2k)
      with nk1 show ?thesis by simp
    qed
  qed
qed

lemma build_items_default_waits:
  assumes run: "build_items reg m b = (b', r)" and m: "m < 2"
    and n: "map_of v ''_name'' = Some (PStr n)"
    and c: "reg n = Some c" and dv: "distinct (map fst v)"
    and p: "p \<in> set (tl (args c))" and d: "map_of (default_params_of c) p = Some d"
    and nl: "literal_of v p = None" and na: "map_of (named_params_of v) p = None"
    and ne: "p \<noteq> ''experiment_config''"
    and dc: "distinct (map fst (b_config b))"
    and Q: "\<not> dict_in p (b_experiment b) \<longrightarrow>
              (k, PDict v) \<in> set (b_config b) \<and> dict_in p (b_config b) \<and> \<not> dict_in k (b_experiment b)"
  shows "\<not> dict_in p (b_experiment b') \<longrightarrow>
              (k, PDict v) \<in> set (b_config b') \<and> dict_in p (b_config b') \<and> \<not> dict_in k (b_experiment b')"
  using run dc Q
proof (induction rule: build_items_induct)
  case (empty b)
  then show ?case by simp
next
  case (raised b s e)
  show ?case
  proof
    assume np: "\<not> dict_in p (b_experiment (after_scan b s))"
    with scan_experiment_mono[OF raised(2)] have np0: "\<not> dict_in p (b_experiment b)"
      by (auto simp: dict_in_keys_of scan_init_def)
    with raised(4) have q: "(k, PDict v) \<in> set (b_config b)" "dict_in p (b_config b)"
      "\<not> dict_in k (b_experiment b)" by simp_all
    from scan_default_waits[OF raised(2) m _ raised(3) q(1) n c dv p d nl na ne q(2)] q(3) np
    have "\<not> dict_in k (experiment_dict s)" by (simp add: scan_init_def)
    with q show "(k, PDict v) \<in> set (b_config (after_scan b s)) \<and> dict_in p (b_config (after_scan b s))
        \<and> \<not> dict_in k (b_experiment (after_scan b s))" by simp
  qed
next
  case (stuck b s)
  show ?case
  proof
    assume np: "\<not> dict_in p (b_experiment (after_scan b s))"
    with scan_experiment_mono[OF stuck(2)] have np0: "\<not> dict_in p (b_experiment b)"
      by (auto simp: dict_in_keys_of scan_init_def)
    with stuck(5) have q: "(k, PDict v) \<in> set (b_config b)" "dict_in p (b_config b)"
      "\<not> dict_in k (b_experiment b)" by simp_all
    from scan_default_waits[OF stuck(2) m _ stuck(4) q(1) n c dv p d nl na ne q(2)] q(3) np
    have "\<not> dict_in k (experiment_dict s)" by (simp add: scan_init_def)
    with q show "(k, PDict v) \<in> set (b_config (after_scan b s)) \<and> dict_in p (b_config (after_scan b s))
        \<and> \<not> dict_in k (b_experiment (after_scan b s))" by simp
  qed
next
  case (again b s b' r)
  have dn: "distinct (map fst (b_config (next_pass b s)))"
    using again(6) by (simp add: dict_del_all_distinct)
  have Qn: "\<not> dict_in p (b_experiment (next_pass b s)) \<longrightarrow>
              (k, PDict v) \<in> set (b_config (next_pass b s)) \<and> dict_in p (b_config (next_pass b s))
              \<and> \<not> dict_in k (b_experiment (next_pass b s))"
  proof
    assume np: "\<not> dict_in p (b_experiment (next_pass b s))"
    then have nps: "\<not> dict_in p (experiment_dict s)" by simp
    with scan_experiment_mono[OF again(2)] have np0: "\<not> dict_in p (b_experiment b)"
      by (auto simp: dict_in_keys_of scan_init_def)
    with again(7) have q: "(k, PDict v) \<in> set (b_config b)" "dict_in p (b_config b)"
      "\<not> dict_in k (b_experiment b)" by simp_all
    from scan_default_waits[OF again(2) m _ again(6) q(1) n c dv p d nl na ne q(2)] q(3) nps
    have nk: "\<not> dict_in k (experiment_dict s)" by (simp add: scan_init_def)
    from full_scan_keys(1)[OF again(2)] nps nk have "p \<notin> configured s" "k \<notin> configured s"
      by (auto simp: dict_in_keys_of)
    with q nk show "(k, PDict v) \<in> set (b_config (next_pass b s)) \<and> dict_in p (b_config (next_pass b s))
              \<and> \<not> dict_in k (b_experiment (next_pass b s))"
      by (auto simp: dict_del_all_def dict_in_def)
  qed
  from again(5)[OF dn Qn] show ?case .
qed

text \<open>
  C1, amended. Take a pending descriptor \<open>k\<close> whose class has a default for a parameter
  \<open>p\<close>, which gives \<open>p\<close> neither a literal override nor an alias, \<open>p\<close> not being the
  reserved \<open>experiment_config\<close>, and let \<open>p\<close> also be a pending top-level key. In tiers
  0 and 1 a scan step that finds \<open>p\<close> unresolved leaves the parameter unfilled, and as long
  as \<open>p\<close> is unresolved when the tier ends, the descriptor is unresolved and still
  pending. In tier 2 a scan step that finds \<open>p\<close> unresolved fills the parameter with
  the constructor default.
\<close>

theorem C1_default_waits_for_pending_key:
  assumes "distinct (map fst (b_config b))" and "(k, PDict v) \<in> set (b_config b)"
    and "map_of v ''_name'' = Some (PStr n)" and "reg n = Some c" and "distinct (map fst v)"
    and "p \<in> set (tl (args c))" and "map_of (default_params_of c) p = Some d"
    and "literal_of v p = None" and "map_of (named_params_of v) p = None"
    and "p \<noteq> ''experiment_config''"
    and "dict_in p (b_config b)" and "\<not> dict_in k (b_experiment b)"
  shows "(\<forall>m b' r. m < 2 \<and> build_items reg m b = (b', r) \<and> \<not> dict_in p (b_experiment b') \<longrightarrow>
            \<not> dict_in k (b_experiment b') \<and> (k, PDict v) \<in> set (b_config b'))
       \<and> (\<forall>m ex params p2k.
            m < 2 \<and> \<not> dict_in p ex
            \<and> resolve_params m (b_config b) ex c v = Inr (params, p2k) \<longrightarrow>
            \<not> dict_in p params)
       \<and> (\<forall>config ex params p2k.
            \<not> dict_in p ex \<and> resolve_params 2 config ex c v = Inr (params, p2k) \<longrightarrow>
            map_of params p = Some d)"
proof (intro conjI allI impI)
  fix m b' r
  assume a: "m < 2 \<and> build_items reg m b = (b', r) \<and> \<not> dict_in p (b_experiment b')"
  then have m: "m < 2" and run: "build_items reg m b = (b', r)"
    and np: "\<not> dict_in p (b_experiment b')" by simp_all
  from build_items_default_waits[OF run m assms(3,4,5,6,7,8,9,10,1)] assms(2,11,12) np
  show "\<not> dict_in k (b_experiment b')" and "(k, PDict v) \<in> set (b_config b')" by simp_all
next
  fix m ex params p2k
  assume a: "m < 2 \<and> \<not> dict_in p ex \<and> resolve_params m (b_config b) ex c v = Inr (params, p2k)"
  then have rp: "resolve_params m (b_config b) ex c v = Inr (params, p2k)" by simp
  from a param_source_default[OF assms(8,9,7), of ex m "b_config b"] assms(10,11)
  have "self_or p (param_source m (b_config b) ex c v p) = None"
    by (simp add: default_applies_def self_or_def)
  with resolve_params_map_of(1)[OF rp assms(5), of p] assms(6)
  show "\<not> dict_in p params" by (simp add: dict_in_map_of)
next
  fix config ex params p2k
  assume a: "\<not> dict_in p ex \<and> resolve_params 2 config ex c v = Inr (params, p2k)"
  then have rp: "resolve_params 2 config ex c v = Inr (params, p2k)" by simp
  from a param_source_default[OF assms(8,9,7), of ex 2 config]
  have "self_or p (param_source 2 config ex c v p) = Some d"
    by (simp add: default_applies_def self_or_def)
  with resolve_params_map_of(1)[OF rp assms(5), of p] assms(6)
  show "map_of params p = Some d" by simp
qed

theorem C1_witness:
  "map_of (default_params_of Pair) ''size'' = Some (PInt 0)
   \<and> dict_in ''size'' [(''size'', PDict [(''_name'', PStr ''Box''), (''value'', PStr ''zz'')]),
                        (''pr'', PDict [(''_name'', PStr ''Pair''), (''items_'', PInt 1)])]
   \<and> build_items example_registry 1
        \<lparr>b_config = [(''size'', PDict [(''_name'', PStr ''Box''), (''value'', PStr ''zz'')]),
                     (''pr'', PDict [(''_name'', PStr ''Pair''), (''items_'', PInt 1)])],
         b_experiment = [], b_factories = []\<rparr>
      = (\<lparr>b_config = [(''size'', PDict [(''_name'', PStr ''Box''), (''value'', PStr ''zz'')]),
                      (''pr'', PDict [(''_name'', PStr ''Pair''), (''items_'', PInt 1)])],
          b_experiment = [], b_factories = []\<rparr>,
         Some (UnconfiguredItemsException [(''size'', {''value''}), (''pr'', {''size''})]))
   \<and> \<not> dict_in ''pr'' ([] :: pval dict)
   \<and> (''pr'', PDict [(''_name'', PStr ''Pair''), (''items_'', PInt 1)])
       \<in> set [(''size'', PDict [(''_name'', PStr ''Box''), (''value'', PStr ''zz'')]),
                (''pr'', PDict [(''_name'', PStr ''Pair''), (''items_'', PInt 1)])]
   \<and> resolve_params 2
        [(''size'', PDict [(''_name'', PStr ''Box''), (''value'', PStr ''zz'')]),
         (''pr'', PDict [(''_name'', PStr ''Pair''), (''items_'', PInt 1)])] [] Pair
        [(''_name'', PStr ''Pair''), (''items_'', PInt 1)]
      = Inr ([(''items'', PInt 1), (''size'', PInt 0)], [(''items'', PNone), (''size'', PNone)])
   \<and> map_of [(''items'', PInt 1), (''size'', PInt 0)] ''size'' = Some (PInt 0)"
proof -
  let ?v = "[(''_name'', PStr ''Pair''), (''items_'', PInt 1)]"
  let ?cfg = "[(''size'', PDict [(''_name'', PStr ''Box''), (''value'', PStr ''zz'')]),
                     (''pr'', PDict ?v)]"
  let ?b = "\<lparr>b_config = ?cfg, b_experiment = [], b_factories = []\<rparr>"
  have h1: "distinct (map fst (b_config ?b))" by simp
  have h2: "(''pr'', PDict ?v) \<in> set (b_config ?b)" by simp
  have h3: "map_of ?v ''_name'' = Some (PStr ''Pair'')" by simp
  have h4: "example_registry ''Pair'' = Some Pair" by (simp add: example_registry_def)
  have h5: "distinct (map fst ?v)" by simp
  have h6: "''size'' \<in> set (tl (args Pair))" by (simp add: Pair_def)
  have h7: "map_of (default_params_of Pair) ''size'' = Some (PInt 0)" by code_simp
  have h8: "literal_of ?v ''size'' = None" by (simp add: literal_of_def)
  have h9: "map_of (named_params_of ?v) ''size'' = None" by (simp add: named_params_of_def)
  have h10: "''size'' \<noteq> ''experiment_config''" by simp
  have h11: "dict_in ''size'' (b_config ?b)" by (simp add: dict_in_def)
  have h12: "\<not> dict_in ''pr'' (b_experiment ?b)" by (simp add: dict_in_def)
  have run: "build_items example_registry 1 ?b
      = (?b, Some (UnconfiguredItemsException [(''size'', {''value''}), (''pr'', {''size''})]))"
    by code_simp
  have rp: "resolve_params 2 ?cfg [] Pair ?v
      = Inr ([(''items'', PInt 1), (''size'', PInt 0)], [(''items'', PNone), (''size'', PNone)])"
    by code_simp
  note t = C1_default_waits_for_pending_key[where reg = example_registry,
      OF h1 h2 h3 h4 h5 h6 h7 h8 h9 h10 h11 h12]
  from t run have w1: "(''pr'', PDict ?v) \<in> set (b_config ?b)" by simp
  from t[THEN conjunct2, THEN conjunct2, rule_format, of "[]" ?cfg, OF conjI[OF _ rp]]
  have w2: "map_of [(''items'', PInt 1), (''size'', PInt 0)] ''size'' = Some (PInt 0)"
    by (simp add: dict_in_def)
  from h7 h11 run h12 w1 rp w2 show ?thesis by simp
qed

text \<open>
  C1 as stated fails for a descriptor that supplies \<open>p\<close> itself: with the literal
  override \<open>size_\<close> tier 0 constructs \<open>pr\<close> although the key \<open>size\<close> is pending
  and unresolvable; with the alias \<open>size: "zz"\<close> for a key that never resolves, tier 2
  does not use the default and \<open>pr\<close> stays pending.
\<close>

theorem C1_counterexample:
  "map_of (default_params_of Pair) ''size'' = Some (PInt 0)
   \<and> build_items example_registry 0
        \<lparr>b_config = [(''size'', PDict [(''_name'', PStr ''Box''), (''value'', PStr ''zz'')]),
                     (''pr'', PDict [(''_name'', PStr ''Pair''), (''items_'', PInt 1),
                                     (''size_'', PInt 7)])],
         b_experiment = [], b_factories = []\<rparr>
      = (\<lparr>b_config = [(''size'', PDict [(''_name'', PStr ''Box''), (''value'', PStr ''zz'')])],
          b_experiment = [(''pr'', PObj ''Pair'' [(''items'', PInt 1), (''size'', PInt 7)])],
          b_factories = [(''pr'', PluginFactory ''Pair''
                                   (Some [(''items'', PNone), (''size'', PNone)]) []
                                   [(''items'', PInt 1), (''size'', PInt 7)])]\<rparr>,
         Some (UnconfiguredItemsException [(''size'', {''value''})]))
   \<and> build_items example_registry 2
        \<lparr>b_config = [(''size'', PDict [(''_name'', PStr ''Box''), (''value'', PStr ''zz'')]),
                     (''pr'', PDict [(''_name'', PStr ''Pair''), (''items_'', PInt 1),
                                     (''size'', PStr ''zz'')])],
         b_experiment = [], b_factories = []\<rparr>
      = (\<lparr>b_config = [(''size'', PDict [(''_name'', PStr ''Box''), (''value'', PStr ''zz'')]),
                     (''pr'', PDict [(''_name'', PStr ''Pair''), (''items_'', PInt 1),
                                     (''size'', PStr ''zz'')])],
          b_experiment = [], b_factories = []\<rparr>,
         Some (UnconfiguredItemsException [(''size'', {''value''}), (''pr'', {''size''})]))"
  by code_simp

section \<open>C10: the caller's mapping\<close>

lemma build_items_heap_pure:
  assumes "config < length h" "experiment < length h" "config \<noteq> experiment"
    and "h ! config = b_config b" "h ! experiment = b_experiment b" "f = b_factories b"
  shows "build_items_heap reg m config experiment (h, f) =
           ((h[config := b_config (fst (build_items reg m b)),
               experiment := b_experiment (fst (build_items reg m b))],
             b_factories (fst (build_items reg m b))),
            snd (build_items reg m b))"
proof -
  have "\<lparr>b_config = h ! config, b_experiment = h ! experiment, b_factories = f\<rparr> = b"
    using assms(4,5,6) by simp
  then show ?thesis by (simp add: build_items_heap_def Let_def)
qed

lemma ExperimentConfig_init_heap_pure:
  assumes "experiment < length h"
  shows "ExperimentConfig_init_heap reg h experiment env =
           (h @ [b_config (fst (ExperimentConfig_init reg (h ! experiment) env)),
                 b_experiment (fst (ExperimentConfig_init reg (h ! experiment) env))],
            snd (ExperimentConfig_init reg (h ! experiment) env))"
proof -
  let ?c = "length h" and ?e = "Suc (length h)"
  let ?h2 = "h @ [h ! experiment, []]"
  let ?b0 = "classify env (h ! experiment)"
  have upd: "\<And>x y. ?h2[?c := x, ?e := y] = h @ [x, y]" "\<And>x y. ?h2[?e := y, ?c := x] = h @ [x, y]"
    "\<And>x y u v. (h @ [u, v])[?c := x, ?e := y] = h @ [x, y]"
    by (simp_all add: list_update_append)
  have cl: "classify_heap env ?c ?e ?h2 = (h @ [b_config ?b0, b_experiment ?b0], b_factories ?b0)"
    by (simp add: classify_heap_def Let_def nth_append list_update_append)
  have step: "\<And>m b. build_items_heap reg m ?c ?e (h @ [b_config b, b_experiment b], b_factories b)
      = ((h @ [b_config (fst (build_items reg m b)), b_experiment (fst (build_items reg m b))],
          b_factories (fst (build_items reg m b))), snd (build_items reg m b))"
  proof -
    fix m b
    have "build_items_heap reg m ?c ?e (h @ [b_config b, b_experiment b], b_factories b)
       = (((h @ [b_config b, b_experiment b])[?c := b_config (fst (build_items reg m b)),
               ?e := b_experiment (fst (build_items reg m b))],
             b_factories (fst (build_items reg m b))),
            snd (build_items reg m b))"
      by (rule build_items_heap_pure) (simp_all add: nth_append)
    then show "build_items_heap reg m ?c ?e (h @ [b_config b, b_experiment b], b_factories b)
      = ((h @ [b_config (fst (build_items reg m b)), b_experiment (fst (build_items reg m b))],
          b_factories (fst (build_items reg m b))), snd (build_items reg m b))"
      by (simp add: list_update_append)
  qed
  have n: "new_dict (h ! experiment) h = (?c, h @ [h ! experiment])"
    "new_dict [] (h @ [h ! experiment]) = (?e, ?h2)"
    by (simp_all add: new_dict_def)
  show ?thesis
    unfolding ExperimentConfig_init_heap_def n Let_def prod.case cl ExperimentConfig_init_def
    by (simp add: step)
qed


text \<open>
  C10. \<open>__init__\<close> on a reference to the caller's mapping leaves every dictionary that
  existed before the call as it was, the caller's mapping among them, whether it returns
  or raises: the deletions and insertions go to the two dictionaries allocated by the
  call, whose final contents and outcome are those of the run on a copy.
\<close>

theorem C10_callers_mapping_unchanged:
  assumes "experiment < length h"
  shows "fst (ExperimentConfig_init_heap reg h experiment env) ! experiment = h ! experiment
       \<and> (\<forall>a<length h. fst (ExperimentConfig_init_heap reg h experiment env) ! a = h ! a)
       \<and> snd (ExperimentConfig_init_heap reg h experiment env)
           = snd (ExperimentConfig_init reg (h ! experiment) env)
       \<and> fst (ExperimentConfig_init_heap reg h experiment env) ! length h
           = b_config (fst (ExperimentConfig_init reg (h ! experiment) env))
       \<and> fst (ExperimentConfig_init_heap reg h experiment env) ! Suc (length h)
           = b_experiment (fst (ExperimentConfig_init reg (h ! experiment) env))"
  using assms
  by (simp add: ExperimentConfig_init_heap_pure nth_append)

theorem C10_witness:
  "(0::nat) < length [[(''a'', PInt 5), (''b'', PDict [(''_name'', PStr ''Box''), (''value'', PStr ''a'')])]]
   \<and> ExperimentConfig_init_heap example_registry
        [[(''a'', PInt 5), (''b'', PDict [(''_name'', PStr ''Box''), (''value'', PStr ''a'')])]] 0 []
      = ([[(''a'', PInt 5), (''b'', PDict [(''_name'', PStr ''Box''), (''value'', PStr ''a'')])],
          [],
          [(''a'', PInt 5), (''b'', PObj ''Box'' [(''value'', PInt 5)])]], None)
   \<and> fst (ExperimentConfig_init_heap example_registry
        [[(''a'', PInt 5), (''b'', PDict [(''_name'', PStr ''Box''), (''value'', PStr ''a'')])]] 0 []) ! 0
      = [(''a'', PInt 5), (''b'', PDict [(''_name'', PStr ''Box''), (''value'', PStr ''a'')])]"
proof -
  let ?h = "[[(''a'', PInt 5), (''b'', PDict [(''_name'', PStr ''Box''), (''value'', PStr ''a'')])]]"
  have l: "(0::nat) < length ?h" by simp
  have run: "ExperimentConfig_init_heap example_registry ?h 0 []
      = ([[(''a'', PInt 5), (''b'', PDict [(''_name'', PStr ''Box''), (''value'', PStr ''a'')])],
          [],
          [(''a'', PInt 5), (''b'', PObj ''Box'' [(''value'', PInt 5)])]], None)"
    by code_simp
  from C10_callers_mapping_unchanged[OF l, of example_registry "[]"]
  have "fst (ExperimentConfig_init_heap example_registry ?h 0 []) ! 0 = ?h ! 0" by blast
  with l run show ?thesis by simp
qed

section \<open>C6: independence of the declaration order\<close>



















end
